theory Spec2Isabelle
  imports Main "HOL-Library.Word"
begin

section \<open>The SOCKS5 UDP relay bridge of proxy/udp.go\<close>

text \<open>
  A shallow embedding of \<^verbatim>\<open>src/proxy/udp.go\<close>: the SOCKS5 UDP header parser
  \<^verbatim>\<open>parseUDPHeader\<close>, the frame reader \<^verbatim>\<open>udpBridgeConn.Read\<close>, the frame
  writer \<^verbatim>\<open>udpBridgeConn.Write\<close> with its helper \<^verbatim>\<open>write\<close>, and the pool
  loops of \<^verbatim>\<open>handleUDPtoTCP\<close>.

  Conventions of the embedding.
  \<^item> A Go \<^verbatim>\<open>byte\<close> is an \<open>8 word\<close>; a \<^verbatim>\<open>[]byte\<close> is the list of its visible
    bytes, and its capacity is taken to be its length (true of the result of \<^verbatim>\<open>make\<close>,
    and immaterial wherever the connection argument of the parser is \<^verbatim>\<open>nil\<close>, which is
    how this file calls it). A slice that may be \<^verbatim>\<open>nil\<close> is an \<open>option\<close>.
  \<^item> \<^verbatim>\<open>Write\<close> is embedded twice. The functions on byte lists describe one call by the
    contents of the chunk and of the retained buffer at the time of the call. The functions
    on a store (section "Write on a store") keep the retained buffer as a reference into
    the caller's memory, as the code does, and describe successive calls whatever the
    caller does with its buffer in between. The two are proved to agree for a caller
    that hands over every piece in a slice of its own (\<open>WriteS_view\<close>, \<open>feedFresh_view\<close>).
  \<^item> A Go function returning \<^verbatim>\<open>(..., err)\<close> returns a tuple whose last component is an
    \<open>error option\<close>; a run-time panic is the separate outcome \<open>Panics\<close>.
  \<^item> Go \<^verbatim>\<open>int\<close> values that are lengths, sizes and ports are \<open>nat\<close>; the counter
    \<^verbatim>\<open>waitingMore.remain\<close> and the byte counts returned by the writer are \<open>int\<close>, because
    the code lets them go negative. None of them comes near 64 bits.
  \<^item> The logger has no effect on control flow and is left out.
\<close>

subsection \<open>Bytes, errors, outcomes\<close>

type_synonym byte = "8 word"

datatype panic =
    IndexOutOfRange    \<comment> \<open>run-time error: index or slice bounds out of range\<close>
  | NilDereference     \<comment> \<open>run-time error: nil pointer dereference\<close>
  | PacketSizePanic    \<comment> \<open>the explicit \<^verbatim>\<open>panic(...)\<close> on line 141\<close>

datatype error =
    ExpectSOCKS5 byte        \<comment> \<open>line 75\<close>
  | InvalidMethod byte       \<comment> \<open>line 79\<close>
  | InvalidAddressType byte  \<comment> \<open>line 92\<close>
  | EOF                      \<comment> \<open>\<^verbatim>\<open>io.EOF\<close>\<close>
  | ErrUnexpectedEOF         \<comment> \<open>\<^verbatim>\<open>io.ErrUnexpectedEOF\<close>\<close>
  | ErrShortBuffer           \<comment> \<open>\<^verbatim>\<open>io.ErrShortBuffer\<close>\<close>
  | NetError                 \<comment> \<open>an error reported by the UDP socket\<close>
  | DialError                \<comment> \<open>an error reported by \<^verbatim>\<open>DialUpstream\<close>\<close>

datatype 'a outcome = Returns 'a | Panics panic

text \<open>The three errors of the parser that report a malformed header.\<close>

fun isProtocolError :: "error \<Rightarrow> bool" where
  "isProtocolError (ExpectSOCKS5 _) = True"
| "isProtocolError (InvalidMethod _) = True"
| "isProtocolError (InvalidAddressType _) = True"
| "isProtocolError _ = False"

subsection \<open>Constants declared outside the file\<close>

text \<open>
  Modelled from the spec: the constants \<^verbatim>\<open>socksVersion5\<close>, \<^verbatim>\<open>socksAddrIPv4\<close>,
  \<^verbatim>\<open>socksAddrDomain\<close> and \<^verbatim>\<open>socksAddrIPv6\<close> are declared elsewhere in the package.
  Section 6 of the specification gives their values: version marker 5, and address types
  1 (IPv4), 3 (domain), 4 (IPv6). \<^verbatim>\<open>net.IPv4len\<close> and \<^verbatim>\<open>net.IPv6len\<close> are the
  standard library's 4 and 16.
\<close>

definition socksVersion5 :: byte where "socksVersion5 = 5"
definition socksAddrIPv4 :: byte where "socksAddrIPv4 = 1"
definition socksAddrDomain :: byte where "socksAddrDomain = 3"
definition socksAddrIPv6 :: byte where "socksAddrIPv6 = 4"
definition IPv4len :: nat where "IPv4len = 4"
definition IPv6len :: nat where "IPv6len = 16"

text \<open>
  The header templates \<^verbatim>\<open>udpHeaderIPv4\<close> and \<^verbatim>\<open>udpHeaderIPv6\<close> are declared elsewhere
  too, and the specification does not give their bytes; the functions that use them take
  them as a parameter.
\<close>

record templates =
  udpHeaderIPv4 :: "byte list"
  udpHeaderIPv6 :: "byte list"

subsection \<open>Slices and big-endian integers\<close>

text \<open>\<^verbatim>\<open>b[lo:hi]\<close>, for \<open>lo \<le> hi \<le> length b\<close>.\<close>

definition slice :: "'a list \<Rightarrow> nat \<Rightarrow> nat \<Rightarrow> 'a list" where
  "slice b lo hi = take (hi - lo) (drop lo b)"

text \<open>
  \<^verbatim>\<open>copy(dst, src)\<close> copies \<open>min (length dst) (length src)\<close> bytes and returns the new
  contents of \<open>dst\<close>. \<^verbatim>\<open>copy(b[off:], src)\<close> is \<open>copy_at b off src\<close>, for \<open>off \<le> length b\<close>.
\<close>

definition copy_bytes :: "'a list \<Rightarrow> 'a list \<Rightarrow> 'a list" where
  "copy_bytes dst src = take (length dst) src @ drop (length src) dst"

definition copy_at :: "'a list \<Rightarrow> nat \<Rightarrow> 'a list \<Rightarrow> 'a list" where
  "copy_at b off src = take off b @ copy_bytes (drop off b) src"

text \<open>\<^verbatim>\<open>binary.BigEndian.Uint16(b)\<close>, for \<open>2 \<le> length b\<close>.\<close>

definition Uint16 :: "byte list \<Rightarrow> nat" where
  "Uint16 b = 256 * unat (b ! 0) + unat (b ! 1)"

text \<open>
  The two bytes that \<^verbatim>\<open>binary.BigEndian.PutUint16(b, uint16(v))\<close> stores at the front of
  \<open>b\<close>; the conversion to \<^verbatim>\<open>uint16\<close> keeps the low 16 bits.
\<close>

definition PutUint16 :: "nat \<Rightarrow> byte list" where
  "PutUint16 v = [of_nat ((v mod 65536) div 256), of_nat (v mod 256)]"

subsection \<open>Addresses\<close>

text \<open>\<^verbatim>\<open>uAddr\<close>, lines 16-21. The field \<^verbatim>\<open>size\<close> is \<open>size_hdr\<close> here.\<close>

record uAddr =
  ip :: "byte list option"
  host :: "byte list"
  port :: nat
  size_hdr :: nat

subsection \<open>A stream connection, and the io helpers\<close>

text \<open>
  The read side of a \<^verbatim>\<open>net.Conn\<close>: the chunks that successive \<^verbatim>\<open>Read\<close> calls
  will deliver; when none is left, \<^verbatim>\<open>Read\<close> reports \<^verbatim>\<open>io.EOF\<close>. A read into a buffer
  of \<open>k\<close> bytes takes at most \<open>k\<close> bytes of the first chunk and leaves the rest.
\<close>

type_synonym conn = "byte list list"

fun conn_Read :: "conn \<Rightarrow> nat \<Rightarrow> (byte list \<times> error option) \<times> conn" where
  "conn_Read [] k = (([], Some EOF), [])"
| "conn_Read (ch # rest) k =
     (if length ch \<le> k then ((ch, None), rest)
      else ((take k ch, None), drop k ch # rest))"

text \<open>
  The loop of \<^verbatim>\<open>io.ReadAtLeast\<close>: \<^verbatim>\<open>for n < min && err == nil\<close>, reading into
  \<^verbatim>\<open>buf[n:]\<close>. It is entered with \<open>mn \<le> length buf\<close>, which the guard repeats
  (\<open>mn\<close> is the parameter \<^verbatim>\<open>min\<close>).
\<close>

function ReadAtLeast_loop ::
  "conn \<Rightarrow> byte list \<Rightarrow> nat \<Rightarrow> nat \<Rightarrow> (nat \<times> error option) \<times> byte list \<times> conn" where
  "ReadAtLeast_loop cn buf n mn =
     (if n < mn \<and> mn \<le> length buf then
        (case conn_Read cn (length buf - n) of
           ((bs, Some e), cn') \<Rightarrow> ((n + length bs, Some e), copy_at buf n bs, cn')
         | ((bs, None), cn') \<Rightarrow> ReadAtLeast_loop cn' (copy_at buf n bs) (n + length bs) mn)
      else ((n, None), buf, cn))"
  by pat_completeness auto
termination
proof (relation "measure (\<lambda>(cn, buf, n, mn). length cn + length (concat cn))", goal_cases)
  case 1
  show ?case by simp
next
  case (2 cn buf n mn x1 cn' bs e)
  then show ?case
    by (cases cn) (auto split: if_splits)
qed

declare ReadAtLeast_loop.simps [simp del]

text \<open>\<^verbatim>\<open>io.ReadAtLeast(r, buf, min)\<close>: the count, the error, the buffer and the connection.\<close>

definition ReadAtLeast ::
  "conn \<Rightarrow> byte list \<Rightarrow> nat \<Rightarrow> (nat \<times> error option) \<times> byte list \<times> conn" where
  "ReadAtLeast cn buf mn =
     (if length buf < mn then ((0, Some ErrShortBuffer), buf, cn)
      else
        (case ReadAtLeast_loop cn buf 0 mn of
           ((n, err), buf', cn') \<Rightarrow>
             (if mn \<le> n then ((n, None), buf', cn')
              else if 0 < n \<and> err = Some EOF then ((n, Some ErrUnexpectedEOF), buf', cn')
              else ((n, err), buf', cn'))))"

text \<open>\<^verbatim>\<open>io.ReadFull(r, buf)\<close> is \<^verbatim>\<open>ReadAtLeast(r, buf, len(buf))\<close>.\<close>

definition ReadFull :: "conn \<Rightarrow> byte list \<Rightarrow> (nat \<times> error option) \<times> byte list \<times> conn" where
  "ReadFull cn buf = ReadAtLeast cn buf (length buf)"

subsection \<open>parseUDPHeader\<close>

text \<open>Lines 73-81: the version and command bytes, checked unless \<^verbatim>\<open>omitCheck\<close>.\<close>

definition checkVersion :: "byte list \<Rightarrow> (error option) outcome" where
  "checkVersion buf =
     (if length buf = 0 then Panics IndexOutOfRange
      else if buf ! 0 \<noteq> socksVersion5 then Returns (Some (ExpectSOCKS5 (buf ! 0)))
      else if length buf \<le> 1 then Panics IndexOutOfRange
      else if buf ! 1 \<noteq> 0x01 \<and> buf ! 1 \<noteq> 0x03 then Returns (Some (InvalidMethod (buf ! 1)))
      else Returns None)"

text \<open>
  Lines 84-93: the header size that the address-type byte selects. \<open>Returns (Inl e)\<close> is
  the \<^verbatim>\<open>default\<close> branch, which returns \<^verbatim>\<open>0, nil, err\<close>.
\<close>

definition addrSize :: "byte list \<Rightarrow> (error + nat) outcome" where
  "addrSize buf =
     (if length buf \<le> 3 then Panics IndexOutOfRange
      else if buf ! 3 = socksAddrIPv4 then Returns (Inr (3 + 1 + IPv4len + 2))
      else if buf ! 3 = socksAddrIPv6 then Returns (Inr (3 + 1 + IPv6len + 2))
      else if buf ! 3 = socksAddrDomain then
        (if length buf \<le> 4 then Panics IndexOutOfRange
         else Returns (Inr (3 + 1 + 1 + unat (buf ! 4) + 2)))
      else Returns (Inl (InvalidAddressType (buf ! 3))))"

text \<open>
  Lines 105-117, entered with \<open>7 \<le> sz \<le> length buf\<close>: the port, and the address
  that the (current) type byte selects.
\<close>

definition extractAddr :: "byte list \<Rightarrow> nat \<Rightarrow> byte \<times> uAddr" where
  "extractAddr buf sz =
     (let rawaddr = slice buf 3 (sz - 2);
          prt = Uint16 (slice buf (sz - 2) sz);
          addr = \<lparr>ip = None, host = [], port = prt, size_hdr = sz\<rparr>
      in if buf ! 3 = socksAddrIPv4 then (buf ! 1, addr\<lparr>ip := Some (drop 1 rawaddr)\<rparr>)
         else if buf ! 3 = socksAddrIPv6 then (buf ! 1, addr\<lparr>ip := Some (drop 1 rawaddr)\<rparr>)
         else (buf ! 1, addr\<lparr>host := drop 2 rawaddr\<rparr>))"

text \<open>
  Lines 73-117, with \<open>buf\<close> and \<open>n\<close> as lines 63-71 leave them. The result is the
  triple \<^verbatim>\<open>(method, addr, err)\<close> and the connection. With a live connection the bytes
  \<^verbatim>\<open>buf[n:addr.size]\<close> are read from it (the slice expression panics unless
  \<open>n \<le> sz \<le> length buf\<close>); a failed read returns through the bare \<^verbatim>\<open>return\<close> of
  line 97, which hands back the address allocated on line 83 with only its size set.
\<close>

definition parseFrom ::
  "conn option \<Rightarrow> byte list \<Rightarrow> nat \<Rightarrow> bool \<Rightarrow>
     (byte \<times> uAddr option \<times> error option) outcome \<times> conn option" where
  "parseFrom cn buf n omitCheck =
     (case (if omitCheck then Returns None else checkVersion buf) of
        Panics p \<Rightarrow> (Panics p, cn)
      | Returns (Some e) \<Rightarrow> (Returns (0, None, Some e), cn)
      | Returns None \<Rightarrow>
          (case addrSize buf of
             Panics p \<Rightarrow> (Panics p, cn)
           | Returns (Inl e) \<Rightarrow> (Returns (0, None, Some e), cn)
           | Returns (Inr sz) \<Rightarrow>
               (case cn of
                  Some c \<Rightarrow>
                    (if sz < n \<or> length buf < sz then (Panics IndexOutOfRange, cn)
                     else
                       (case ReadFull c (slice buf n sz) of
                          ((_, Some e), _, c') \<Rightarrow>
                            (Returns (0, Some \<lparr>ip = None, host = [], port = 0, size_hdr = sz\<rparr>, Some e),
                             Some c')
                        | ((_, None), bs, c') \<Rightarrow>
                            (case extractAddr (copy_at buf n bs) sz of
                               (m, a) \<Rightarrow> (Returns (m, Some a, None), Some c'))))
                | None \<Rightarrow>
                    (if length buf < sz then (Returns (0, None, Some EOF), None)
                     else
                       (case extractAddr buf sz of
                          (m, a) \<Rightarrow> (Returns (m, Some a, None), None))))))"

text \<open>
  \<^verbatim>\<open>parseUDPHeader(conn, buf, omitCheck)\<close>, lines 62-118. Without a buffer, a fresh one
  of \<open>256+3+1+1+2\<close> bytes is filled with at least \<open>3+1+net.IPv4len+2\<close> bytes from the
  connection; calling \<^verbatim>\<open>Read\<close> on a \<^verbatim>\<open>nil\<close> connection panics.
\<close>

definition parseUDPHeader ::
  "conn option \<Rightarrow> byte list option \<Rightarrow> bool \<Rightarrow>
     (byte \<times> uAddr option \<times> error option) outcome \<times> conn option" where
  "parseUDPHeader cn buf omitCheck =
     (case buf of
        Some b \<Rightarrow> parseFrom cn b 0 omitCheck
      | None \<Rightarrow>
          (case cn of
             None \<Rightarrow> (Panics NilDereference, None)
           | Some c \<Rightarrow>
               (case ReadAtLeast c (replicate (256 + 3 + 1 + 1 + 2) 0) (3 + 1 + IPv4len + 2) of
                  ((n, Some e), b, c') \<Rightarrow> (Returns (0, None, Some e), Some c')
                | ((n, None), b, c') \<Rightarrow> parseFrom (Some c') b n omitCheck)))"

subsection \<open>The UDP socket\<close>

text \<open>
  The \<^verbatim>\<open>*net.UDPConn\<close> that the pool shares, as the environment presents it to one member:
  the datagrams (or read errors) still to arrive, the datagrams sent so far with their
  target (\<open>None\<close> for \<^verbatim>\<open>Write\<close>, the peer for \<^verbatim>\<open>WriteTo\<close>), and a script that says
  which of the coming send calls fail (\<open>True\<close>; an exhausted script means success). A read
  with nothing left to deliver, and any call on a closed socket, ends with an error. The
  pointer to the socket is modelled by the socket's value.
\<close>

type_synonym netaddr = nat

record udpconn =
  inbox :: "(error + netaddr \<times> byte list) list"
  outbox :: "(netaddr option \<times> byte list) list"
  sendfail :: "bool list"
  sock_closed :: bool

text \<open>
  \<^verbatim>\<open>ReadFrom(b)\<close>: the count, the sender, the error, the buffer and the socket. A datagram
  longer than the buffer is cut to the buffer's length.
\<close>

definition ReadFrom ::
  "udpconn \<Rightarrow> byte list \<Rightarrow> (nat \<times> netaddr option \<times> error option) \<times> byte list \<times> udpconn" where
  "ReadFrom s b =
     (if sock_closed s then ((0, None, Some NetError), b, s)
      else
        (case inbox s of
           [] \<Rightarrow> ((0, None, Some NetError), b, s)
         | Inl e # rest \<Rightarrow> ((0, None, Some e), b, s\<lparr>inbox := rest\<rparr>)
         | Inr (src, d) # rest \<Rightarrow>
             ((min (length b) (length d), Some src, None), copy_bytes b d, s\<lparr>inbox := rest\<rparr>)))"

text \<open>\<^verbatim>\<open>Write(d)\<close> (\<open>to = None\<close>) and \<^verbatim>\<open>WriteTo(d, addr)\<close> (\<open>to = Some addr\<close>).\<close>

definition send :: "udpconn \<Rightarrow> netaddr option \<Rightarrow> byte list \<Rightarrow> (nat \<times> error option) \<times> udpconn" where
  "send s to d =
     (if sock_closed s then ((0, Some NetError), s)
      else
        (case sendfail s of
           True # rest \<Rightarrow> ((0, Some NetError), s\<lparr>sendfail := rest\<rparr>)
         | False # rest \<Rightarrow> ((length d, None), s\<lparr>outbox := outbox s @ [(to, d)], sendfail := rest\<rparr>)
         | [] \<Rightarrow> ((length d, None), s\<lparr>outbox := outbox s @ [(to, d)]\<rparr>)))"

definition sock_Close :: "udpconn \<Rightarrow> error option \<times> udpconn" where
  "sock_Close s = (if sock_closed s then (Some NetError, s) else (None, s\<lparr>sock_closed := True\<rparr>))"

subsection \<open>udpBridgeConn\<close>

text \<open>
  Lines 120-136. \<^verbatim>\<open>waitingMore.buf\<close> and \<^verbatim>\<open>waitingMore.remain\<close> are the fields
  \<open>waitingMore_buf\<close> and \<open>waitingMore_remain\<close>; \<^verbatim>\<open>dst\<close> is a pointer and may be
  \<^verbatim>\<open>nil\<close>.
\<close>

record udpBridgeConn =
  UDPConn :: udpconn
  udpSrc :: "netaddr option"
  initBuf :: "byte list option"
  waitingMore_buf :: "byte list"
  waitingMore_remain :: int
  incompleteLen :: bool
  socks :: bool
  closed :: bool
  dst :: "uAddr option"

subsection \<open>Read\<close>

text \<open>
  The label \<^verbatim>\<open>PUT_HEADER\<close>, lines 168-171: the length prefix goes into the first two
  bytes of the buffer; the result is the count, the error, the buffer and the connection.
\<close>

definition Read_PUT_HEADER ::
  "byte list \<Rightarrow> nat \<Rightarrow> udpBridgeConn \<Rightarrow> (int \<times> error option) outcome \<times> byte list \<times> udpBridgeConn" where
  "Read_PUT_HEADER b n c = (Returns (int n + 2, None), PutUint16 n @ drop 2 b, c)"

text \<open>\<^verbatim>\<open>udpBridgeConn.Read\<close>, lines 138-172.\<close>

definition Read ::
  "udpBridgeConn \<Rightarrow> byte list \<Rightarrow> (int \<times> error option) outcome \<times> byte list \<times> udpBridgeConn" where
  "Read c b =
     (if length b < 2050 then (Panics PacketSizePanic, b, c)
      else
        (case initBuf c of
           Some ib \<Rightarrow> Read_PUT_HEADER (copy_at b 2 ib) (length ib) (c\<lparr>initBuf := None\<rparr>)
         | None \<Rightarrow>
             (case ReadFrom (UDPConn c) b of
                ((n, src, Some e), b1, s1) \<Rightarrow>
                  (Returns (int n, Some e), b1, c\<lparr>UDPConn := s1, udpSrc := src\<rparr>)
              | ((n, src, None), b1, s1) \<Rightarrow>
                  (let c1 = c\<lparr>UDPConn := s1, udpSrc := src\<rparr> in
                   if socks c1 then
                     (case fst (parseUDPHeader None (Some (take n b1)) True) of
                        Panics p \<Rightarrow> (Panics p, b1, c1)
                      | Returns (_, _, Some e) \<Rightarrow> (Returns (0, Some e), b1, c1)
                      | Returns (_, None, None) \<Rightarrow> (Panics NilDereference, b1, c1)
                      | Returns (_, Some d, None) \<Rightarrow>
                          Read_PUT_HEADER (copy_at b1 2 (slice b1 (size_hdr d) n)) (n - size_hdr d) c1)
                   else Read_PUT_HEADER (copy_at b1 2 (take n b1)) n c1))))"

subsection \<open>write: one frame to the socket\<close>

text \<open>\<^verbatim>\<open>copy(x[lo:hi], src)\<close>, for \<open>lo \<le> hi \<le> length x\<close>.\<close>

definition copy_range :: "'a list \<Rightarrow> nat \<Rightarrow> nat \<Rightarrow> 'a list \<Rightarrow> 'a list" where
  "copy_range x lo hi src = take lo x @ copy_bytes (slice x lo hi) src @ drop hi x"

text \<open>
  Lines 189-218: the buffer \<^verbatim>\<open>xbuf\<close> of \<open>len(b)+256\<close> bytes with the SOCKS5 header for
  the destination and the payload behind it, and the header length \<^verbatim>\<open>ln\<close>. The slice
  expressions \<^verbatim>\<open>xbuf[5+hl:]\<close> and \<^verbatim>\<open>xbuf[ln:]\<close> and the two-byte store of
  \<^verbatim>\<open>PutUint16\<close> panic when they reach behind the end of \<^verbatim>\<open>xbuf\<close>.
\<close>

definition socksWrap :: "templates \<Rightarrow> uAddr \<Rightarrow> byte list \<Rightarrow> (byte list \<times> nat) outcome" where
  "socksWrap T d b =
     (let xbuf = replicate (length b + 256) (0 :: byte) in
      if host d \<noteq> [] then
        (let hl = length (host d);
             x1 = xbuf[3 := 0x03];
             x2 = x1[4 := of_nat hl];
             x3 = copy_at x2 5 (host d)
         in if length x3 < 5 + hl + 2 then Panics IndexOutOfRange
            else
              (let x4 = copy_at x3 (5 + hl) (PutUint16 (port d));
                   ln = 5 + hl + 2
               in Returns (copy_at x4 ln b, ln)))
      else if (case ip d of None \<Rightarrow> 0 | Some a \<Rightarrow> length a) = IPv4len then
        (let ln = length (udpHeaderIPv4 T);
             x1 = copy_bytes xbuf (udpHeaderIPv4 T);
             x2 = copy_range x1 4 8 (case ip d of None \<Rightarrow> [] | Some a \<Rightarrow> a);
             x3 = copy_at x2 8 (PutUint16 (port d))
         in if length x3 < ln then Panics IndexOutOfRange
            else Returns (copy_at x3 ln b, ln))
      else
        (let ln = length (udpHeaderIPv6 T);
             x1 = copy_bytes xbuf (udpHeaderIPv6 T);
             x2 = copy_range x1 4 20 (case ip d of None \<Rightarrow> [] | Some a \<Rightarrow> a);
             x3 = copy_at x2 20 (PutUint16 (port d))
         in if length x3 < ln then Panics IndexOutOfRange
            else Returns (copy_at x3 ln b, ln)))"

text \<open>
  \<^verbatim>\<open>udpBridgeConn.write\<close>, lines 174-225, under the name \<open>write_udp\<close>. In raw mode
  the payload goes out as it is; in SOCKS mode without a learned peer nothing is sent;
  otherwise \<^verbatim>\<open>xbuf[:ln+len(b)]\<close> goes to the peer (the slice expression panics behind the
  end of \<^verbatim>\<open>xbuf\<close>).
\<close>

definition write_udp ::
  "templates \<Rightarrow> udpBridgeConn \<Rightarrow> byte list \<Rightarrow> (int \<times> error option) outcome \<times> udpBridgeConn" where
  "write_udp T c b =
     (if \<not> socks c then
        (case send (UDPConn c) None b of
           ((n, None), s) \<Rightarrow> (Returns (int n + 2, None), c\<lparr>UDPConn := s\<rparr>)
         | ((n, Some e), s) \<Rightarrow> (Returns (int n, Some e), c\<lparr>UDPConn := s\<rparr>))
      else if udpSrc c = None then (Returns (0, None), c)
      else
        (case dst c of
           None \<Rightarrow> (Panics NilDereference, c)
         | Some d \<Rightarrow>
             (case socksWrap T d b of
                Panics p \<Rightarrow> (Panics p, c)
              | Returns (xbuf, ln) \<Rightarrow>
                  (if length xbuf < ln + length b then (Panics IndexOutOfRange, c)
                   else
                     (case send (UDPConn c) (udpSrc c) (take (ln + length b) xbuf) of
                        ((n, None), s) \<Rightarrow> (Returns (int n + 2 - int ln, None), c\<lparr>UDPConn := s\<rparr>)
                      | ((n, Some e), s) \<Rightarrow> (Returns (int n, Some e), c\<lparr>UDPConn := s\<rparr>))))))"

subsection \<open>Write: the reassembly of frames\<close>

text \<open>
  One pass through the body of \<^verbatim>\<open>Write\<close> ends in one of three ways: it returns
  (\<open>Ret n err c b\<close>: the values of \<^verbatim>\<open>n\<close> and \<^verbatim>\<open>err\<close> at the \<^verbatim>\<open>return\<close>, the connection,
  and the value that the variable \<^verbatim>\<open>b\<close> has then, which the deferred function reads), it
  reaches the recursive call of line 307 (\<open>Rec c b rest\<close>: the call is \<^verbatim>\<open>c.Write(rest)\<close>),
  or it panics.
\<close>

datatype step =
    Ret int "error option" udpBridgeConn "byte list"
  | Rec udpBridgeConn "byte list" "byte list"
  | Pan panic udpBridgeConn

text \<open>The label \<^verbatim>\<open>TEST\<close>, lines 289-307, up to the recursive call.\<close>

definition Write_TEST :: "templates \<Rightarrow> udpBridgeConn \<Rightarrow> byte list \<Rightarrow> nat \<Rightarrow> byte list \<Rightarrow> step" where
  "Write_TEST T c b ln buf =
     (if length buf < ln then
        Ret (int (length b)) None
          (c\<lparr>waitingMore_buf := buf, waitingMore_remain := int ln - int (length buf)\<rparr>) b
      else if length buf = ln then
        (case write_udp T c buf of
           (Returns (n, err), c') \<Rightarrow> Ret n err c' b
         | (Panics p, c') \<Rightarrow> Pan p c')
      else
        (case write_udp T c (take ln buf) of
           (Panics p, c') \<Rightarrow> Pan p c'
         | (Returns (n, Some e), c') \<Rightarrow> Ret n (Some e) c' b
         | (Returns (n, None), c') \<Rightarrow> Rec c' b (drop ln buf)))"

text \<open>Lines 279-287, entered with a non-empty \<^verbatim>\<open>b\<close>, then \<^verbatim>\<open>TEST\<close>.\<close>

definition Write_parse :: "templates \<Rightarrow> udpBridgeConn \<Rightarrow> byte list \<Rightarrow> step" where
  "Write_parse T c b =
     (if length b = 1 then Ret 1 None (c\<lparr>waitingMore_buf := b, incompleteLen := True\<rparr>) b
      else Write_TEST T c b (Uint16 b) (drop 2 b))"

text \<open>
  Lines 239-277, then the rest of the body. After line 275 the variable \<^verbatim>\<open>b\<close> is the
  trailing part \<^verbatim>\<open>b[remain:]\<close>.
\<close>

definition Write_pre :: "templates \<Rightarrow> udpBridgeConn \<Rightarrow> byte list \<Rightarrow> step" where
  "Write_pre T c b =
     (if b = [] then Ret 0 None c b
      else if incompleteLen c then
        (let c0 = c\<lparr>incompleteLen := False\<rparr> in
         if waitingMore_buf c = [] then Pan IndexOutOfRange c0
         else Write_TEST T c0 b (Uint16 [waitingMore_buf c ! 0, b ! 0]) (drop 1 b))
      else if 0 < waitingMore_remain c then
        (let remain = waitingMore_remain c;
             c1 = c\<lparr>waitingMore_remain := remain - int (length b)\<rparr>
         in if waitingMore_remain c1 = 0 then
              (case write_udp T c1 (waitingMore_buf c1 @ b) of
                 (Returns (n, err), c') \<Rightarrow> Ret n err c' b
               | (Panics p, c') \<Rightarrow> Pan p c')
            else if 0 < waitingMore_remain c1 then
              Ret (int (length b)) None (c1\<lparr>waitingMore_buf := waitingMore_buf c1 @ b\<rparr>) b
            else
              (case write_udp T c1 (waitingMore_buf c1 @ take (nat remain) b) of
                 (Panics p, c') \<Rightarrow> Pan p c'
               | (Returns (n, Some e), c') \<Rightarrow> Ret n (Some e) c' b
               | (Returns (n, None), c') \<Rightarrow> Write_parse T c' (drop (nat remain) b)))
      else Write_parse T c b)"

text \<open>
  The deferred function of lines 230-237: without an error the result \<^verbatim>\<open>n\<close> becomes
  \<^verbatim>\<open>len(b)\<close>, for the value \<^verbatim>\<open>b\<close> has when the function returns.
\<close>

definition deferred :: "int \<Rightarrow> error option \<Rightarrow> byte list \<Rightarrow> int \<times> error option" where
  "deferred n err b = (if err = None then (int (length b), None) else (n, err))"

text \<open>\<^verbatim>\<open>udpBridgeConn.Write\<close>, lines 227-308.\<close>

function Write ::
  "templates \<Rightarrow> udpBridgeConn \<Rightarrow> byte list \<Rightarrow> (int \<times> error option) outcome \<times> udpBridgeConn" where
  "Write T c b =
     (case Write_pre T c b of
        Ret n err c' bf \<Rightarrow> (Returns (deferred n err bf), c')
      | Pan p c' \<Rightarrow> (Panics p, c')
      | Rec c' bf rest \<Rightarrow>
          (case Write T c' rest of
             (Returns (n, err), c'') \<Rightarrow> (Returns (deferred n err bf), c'')
           | (Panics p, c'') \<Rightarrow> (Panics p, c'')))"
  by pat_completeness auto
termination
proof (relation "measure (\<lambda>(T, c, b). length b)", goal_cases)
  case 1
  show ?case by simp
next
  case (2 T c b c' bf rest)
  have test: "length rest < length b0 + k"
    if "Write_TEST T c0 b0 ln buf = Rec c' bf rest" "length buf < length b0 + k"
    for c0 b0 ln buf k
    using that
    by (auto simp: Write_TEST_def split: if_splits prod.splits outcome.splits option.splits)
  have parse: "length rest < length b0 + k"
    if "Write_parse T c0 b0 = Rec c' bf rest" "b0 \<noteq> []" for c0 b0 k
    using that test [of c0 b0 "Uint16 b0" "drop 2 b0" k]
    by (cases b0) (auto simp: Write_parse_def split: if_splits)
  from 2 show ?case
    using test [of "c\<lparr>incompleteLen := False\<rparr>" b _ "drop 1 b" 0] parse [of c b 0]
      parse [of _ "drop (nat (waitingMore_remain c)) b" "nat (waitingMore_remain c)"]
    by (cases b) (auto simp: Write_pre_def Let_def
        split: if_splits prod.splits outcome.splits option.splits)
qed

declare Write.simps [simp del]

text \<open>
  Successive calls of \<^verbatim>\<open>Write\<close> on the contents alone: every chunk is taken to stay as
  it was handed over for as long as the writer retains a part of it. The code itself keeps
  a reference (lines 281, 292) and appends in place (lines 261, 266, 271); that is the
  subject of the functions on a store below, of which \<open>feed\<close> is the view for pieces
  handed over in slices of their own (\<open>feedFresh_view\<close>).
\<close>

fun feed :: "templates \<Rightarrow> udpBridgeConn \<Rightarrow> byte list list \<Rightarrow> udpBridgeConn" where
  "feed T c [] = c"
| "feed T c (p # ps) = feed T (snd (Write T c p)) ps"

subsection \<open>Write on a store\<close>

text \<open>
  A \<^verbatim>\<open>[]byte\<close> as Go has it: a backing array in the store (\<open>sl_arr\<close> is its index), an
  offset, a length and a capacity, the capacity counted from the offset. The \<^verbatim>\<open>nil\<close>
  slice has length and capacity 0.
\<close>

record gslice =
  sl_arr :: nat
  sl_off :: nat
  sl_len :: nat
  sl_cap :: nat

type_synonym store = "byte list list"

definition nil_slice :: gslice where
  "nil_slice = \<lparr>sl_arr = 0, sl_off = 0, sl_len = 0, sl_cap = 0\<rparr>"

text \<open>The bytes that a slice shows at the moment.\<close>

definition contents :: "store \<Rightarrow> gslice \<Rightarrow> byte list" where
  "contents h s = take (sl_len s) (drop (sl_off s) (h ! sl_arr s))"

text \<open>\<^verbatim>\<open>s[i:]\<close> for \<open>i \<le> len(s)\<close>, and \<^verbatim>\<open>s[:j]\<close> for \<open>j \<le> len(s)\<close>.\<close>

definition sl_from :: "gslice \<Rightarrow> nat \<Rightarrow> gslice" where
  "sl_from s i = s\<lparr>sl_off := sl_off s + i, sl_len := sl_len s - i, sl_cap := sl_cap s - i\<rparr>"

definition sl_upto :: "gslice \<Rightarrow> nat \<Rightarrow> gslice" where
  "sl_upto s j = s\<lparr>sl_len := j\<rparr>"

text \<open>
  \<^verbatim>\<open>append(s, t...)\<close>: when the capacity of \<open>s\<close> suffices, the bytes of \<open>t\<close> are written
  into the backing array of \<open>s\<close> behind its end; otherwise a new array receives the bytes
  of both. Go gives the new array at least the capacity needed; only the writer refers to
  it, so the spare part is never seen, and the capacity needed is taken.
\<close>

definition append_sl :: "store \<Rightarrow> gslice \<Rightarrow> gslice \<Rightarrow> store \<times> gslice" where
  "append_sl h s t =
     (let bs = contents h t; n = sl_len s + sl_len t
      in if n \<le> sl_cap s then
           (h[sl_arr s := copy_at (h ! sl_arr s) (sl_off s + sl_len s) bs], s\<lparr>sl_len := n\<rparr>)
         else
           (h @ [contents h s @ bs], \<lparr>sl_arr = length h, sl_off = 0, sl_len = n, sl_cap = n\<rparr>))"

text \<open>
  The connection with its memory: \<open>wbuf\<close> is \<^verbatim>\<open>c.waitingMore.buf\<close> as a reference, \<open>mem\<close>
  is the store, and \<open>conn\<close> holds the other fields (its field \<open>waitingMore_buf\<close> plays no
  part here).
\<close>

record writerS =
  conn :: udpBridgeConn
  wbuf :: gslice
  mem :: store

text \<open>\<^verbatim>\<open>c.write(s)\<close>: the bytes that the slice shows go to \<^verbatim>\<open>write\<close>, which keeps none.\<close>

definition write_sl ::
  "templates \<Rightarrow> writerS \<Rightarrow> gslice \<Rightarrow> (int \<times> error option) outcome \<times> writerS" where
  "write_sl T w s =
     (case write_udp T (conn w) (contents (mem w) s) of (r, c') \<Rightarrow> (r, w\<lparr>conn := c'\<rparr>))"

datatype stepS =
    RetS int "error option" writerS gslice
  | RecS writerS gslice gslice
  | PanS panic writerS

text \<open>The label \<^verbatim>\<open>TEST\<close>, lines 289-307; line 292 keeps the reference \<^verbatim>\<open>buf\<close>.\<close>

definition WriteS_TEST :: "templates \<Rightarrow> writerS \<Rightarrow> gslice \<Rightarrow> nat \<Rightarrow> gslice \<Rightarrow> stepS" where
  "WriteS_TEST T w b ln buf =
     (if sl_len buf < ln then
        RetS (int (sl_len b)) None
          (w\<lparr>wbuf := buf,
             conn := (conn w)\<lparr>waitingMore_remain := int ln - int (sl_len buf)\<rparr>\<rparr>) b
      else if sl_len buf = ln then
        (case write_sl T w buf of
           (Returns (n, err), w') \<Rightarrow> RetS n err w' b
         | (Panics p, w') \<Rightarrow> PanS p w')
      else
        (case write_sl T w (sl_upto buf ln) of
           (Panics p, w') \<Rightarrow> PanS p w'
         | (Returns (n, Some e), w') \<Rightarrow> RetS n (Some e) w' b
         | (Returns (n, None), w') \<Rightarrow> RecS w' b (sl_from buf ln)))"

text \<open>Lines 279-287; line 281 keeps the reference \<^verbatim>\<open>b\<close>.\<close>

definition WriteS_parse :: "templates \<Rightarrow> writerS \<Rightarrow> gslice \<Rightarrow> stepS" where
  "WriteS_parse T w b =
     (if sl_len b = 1 then
        RetS 1 None (w\<lparr>wbuf := b, conn := (conn w)\<lparr>incompleteLen := True\<rparr>\<rparr>) b
      else WriteS_TEST T w b (Uint16 (contents (mem w) b)) (sl_from b 2))"

text \<open>
  Lines 239-277. The \<^verbatim>\<open>append\<close> of lines 261 and 271 changes the store, and only that of
  line 266 is assigned to \<^verbatim>\<open>c.waitingMore.buf\<close>.
\<close>

definition WriteS_pre :: "templates \<Rightarrow> writerS \<Rightarrow> gslice \<Rightarrow> stepS" where
  "WriteS_pre T w b =
     (if sl_len b = 0 then RetS 0 None w b
      else if incompleteLen (conn w) then
        (let w0 = w\<lparr>conn := (conn w)\<lparr>incompleteLen := False\<rparr>\<rparr> in
         if sl_len (wbuf w) = 0 then PanS IndexOutOfRange w0
         else WriteS_TEST T w0 b
                (Uint16 [contents (mem w) (wbuf w) ! 0, contents (mem w) b ! 0]) (sl_from b 1))
      else if 0 < waitingMore_remain (conn w) then
        (let remain = waitingMore_remain (conn w);
             w1 = w\<lparr>conn := (conn w)\<lparr>waitingMore_remain := remain - int (sl_len b)\<rparr>\<rparr>
         in if waitingMore_remain (conn w1) = 0 then
              (case append_sl (mem w1) (wbuf w1) b of
                 (h, s) \<Rightarrow>
                   (case write_sl T (w1\<lparr>mem := h\<rparr>) s of
                      (Returns (n, err), w') \<Rightarrow> RetS n err w' b
                    | (Panics p, w') \<Rightarrow> PanS p w'))
            else if 0 < waitingMore_remain (conn w1) then
              (case append_sl (mem w1) (wbuf w1) b of
                 (h, s) \<Rightarrow> RetS (int (sl_len b)) None (w1\<lparr>mem := h, wbuf := s\<rparr>) b)
            else
              (case append_sl (mem w1) (wbuf w1) (sl_upto b (nat remain)) of
                 (h, s) \<Rightarrow>
                   (case write_sl T (w1\<lparr>mem := h\<rparr>) s of
                      (Panics p, w') \<Rightarrow> PanS p w'
                    | (Returns (n, Some e), w') \<Rightarrow> RetS n (Some e) w' b
                    | (Returns (n, None), w') \<Rightarrow> WriteS_parse T w' (sl_from b (nat remain)))))
      else WriteS_parse T w b)"

definition deferredS :: "int \<Rightarrow> error option \<Rightarrow> gslice \<Rightarrow> int \<times> error option" where
  "deferredS n err b = (if err = None then (int (sl_len b), None) else (n, err))"

text \<open>\<^verbatim>\<open>udpBridgeConn.Write\<close>, lines 227-308, on the store.\<close>

function WriteS ::
  "templates \<Rightarrow> writerS \<Rightarrow> gslice \<Rightarrow> (int \<times> error option) outcome \<times> writerS" where
  "WriteS T w b =
     (case WriteS_pre T w b of
        RetS n err w' bf \<Rightarrow> (Returns (deferredS n err bf), w')
      | PanS p w' \<Rightarrow> (Panics p, w')
      | RecS w' bf rest \<Rightarrow>
          (case WriteS T w' rest of
             (Returns (n, err), w'') \<Rightarrow> (Returns (deferredS n err bf), w'')
           | (Panics p, w'') \<Rightarrow> (Panics p, w'')))"
  by pat_completeness auto
termination
proof (relation "measure (\<lambda>(T, w, b). sl_len b)", goal_cases)
  case 1
  show ?case by simp
next
  case (2 T w b w' bf rest)
  have test: "sl_len rest < sl_len b0 + k"
    if "WriteS_TEST T w0 b0 ln buf = RecS w' bf rest" "sl_len buf < sl_len b0 + k"
    for w0 b0 ln buf k
    using that
    by (auto simp: WriteS_TEST_def sl_from_def
        split: if_splits prod.splits outcome.splits option.splits)
  have parse: "sl_len rest < sl_len b0 + k"
    if "WriteS_parse T w0 b0 = RecS w' bf rest" "sl_len b0 \<noteq> 0" for w0 b0 k
    using that test [of w0 b0 "Uint16 (contents (mem w0) b0)" "sl_from b0 2" k]
    by (auto simp: WriteS_parse_def sl_from_def split: if_splits)
  from 2 show ?case
    using test [of "w\<lparr>conn := (conn w)\<lparr>incompleteLen := False\<rparr>\<rparr>" b _ "sl_from b 1" 0]
      parse [of w b 0]
      parse [of _ "sl_from b (nat (waitingMore_remain (conn w)))"
                "nat (waitingMore_remain (conn w))"]
    by (auto simp: WriteS_pre_def Let_def sl_from_def
        split: if_splits prod.splits outcome.splits option.splits)
qed

declare WriteS.simps [simp del]

text \<open>
  A caller that owns one buffer, the array 0 of the store, and delivers a stream of pieces
  through it as \<^verbatim>\<open>io.Copy\<close> does: each piece (no longer than the buffer) is read into the
  front of the buffer, and \<^verbatim>\<open>Write(buf[:n])\<close> is called.
\<close>

fun feedReused :: "templates \<Rightarrow> writerS \<Rightarrow> byte list list \<Rightarrow> writerS" where
  "feedReused T w [] = w"
| "feedReused T w (p # ps) =
     (let h = (mem w)[0 := copy_at (mem w ! 0) 0 p];
          b = \<lparr>sl_arr = 0, sl_off = 0, sl_len = length p, sl_cap = length (mem w ! 0)\<rparr>
      in feedReused T (snd (WriteS T (w\<lparr>mem := h\<rparr>) b)) ps)"

text \<open>A writer with nothing retained, and a caller's buffer of \<open>k\<close> bytes as array 0.\<close>

definition idleWriter :: "udpBridgeConn \<Rightarrow> nat \<Rightarrow> writerS" where
  "idleWriter c k = \<lparr>conn = c, wbuf = nil_slice, mem = [replicate k 0]\<rparr>"

text \<open>
  A caller that hands over every piece in a slice of its own, over a new array that nothing
  else refers to and that is filled to its capacity (as a fresh \<^verbatim>\<open>[]byte(s)\<close> is), and
  never writes to it again.
\<close>

fun feedFresh :: "templates \<Rightarrow> writerS \<Rightarrow> byte list list \<Rightarrow> writerS" where
  "feedFresh T w [] = w"
| "feedFresh T w (p # ps) =
     (let h = mem w @ [p];
          b = \<lparr>sl_arr = length (mem w), sl_off = 0, sl_len = length p, sl_cap = length p\<rparr>
      in feedFresh T (snd (WriteS T (w\<lparr>mem := h\<rparr>) b)) ps)"

text \<open>
  A slice is \<open>shown\<close> by a store that holds all of its bytes, and \<open>tight\<close> when moreover
  its length is its capacity, so that an \<^verbatim>\<open>append\<close> to it (of at least one byte)
  allocates.
\<close>

definition shown :: "store \<Rightarrow> gslice \<Rightarrow> bool" where
  "shown h s = (sl_len s = 0 \<or> (sl_arr s < length h \<and> sl_off s + sl_len s \<le> length (h ! sl_arr s)))"

definition tight :: "store \<Rightarrow> gslice \<Rightarrow> bool" where
  "tight h s = (shown h s \<and> sl_len s = sl_cap s)"

text \<open>
  The connection as the functions on contents see it: the field \<open>waitingMore_buf\<close> holds
  the bytes that the retained slice shows.
\<close>

definition contents_view :: "writerS \<Rightarrow> udpBridgeConn" where
  "contents_view w = (conn w)\<lparr>waitingMore_buf := contents (mem w) (wbuf w)\<rparr>"

text \<open>The same for the end of one pass, and the parts of a pass.\<close>

fun step_view :: "stepS \<Rightarrow> step" where
  "step_view (RetS n err w bf) = Ret n err (contents_view w) (contents (mem w) bf)"
| "step_view (RecS w bf rest) = Rec (contents_view w) (contents (mem w) bf) (contents (mem w) rest)"
| "step_view (PanS p w) = Pan p (contents_view w)"

fun step_writer :: "stepS \<Rightarrow> writerS" where
  "step_writer (RetS n err w bf) = w"
| "step_writer (RecS w bf rest) = w"
| "step_writer (PanS p w) = w"

fun step_rest :: "stepS \<Rightarrow> gslice" where
  "step_rest (RecS w bf rest) = rest"
| "step_rest _ = nil_slice"

fun step_b :: "stepS \<Rightarrow> gslice" where
  "step_b (RetS n err w bf) = bf"
| "step_b (RecS w bf rest) = bf"
| "step_b (PanS p w) = nil_slice"

text \<open>
  A pass on the store is \<open>simulated\<close> by a pass on the contents when the views agree, the
  store has only grown, and the slices that are carried on are still tight and shown.
\<close>

definition simulated :: "store \<Rightarrow> stepS \<Rightarrow> step \<Rightarrow> bool" where
  "simulated h st v =
     (step_view st = v
      \<and> take (length h) (mem (step_writer st)) = h
      \<and> tight (mem (step_writer st)) (wbuf (step_writer st))
      \<and> tight (mem (step_writer st)) (step_rest st)
      \<and> shown (mem (step_writer st)) (step_b st))"

subsection \<open>Close\<close>

text \<open>\<^verbatim>\<open>udpBridgeConn.Close\<close>, lines 310-313.\<close>

definition Close :: "udpBridgeConn \<Rightarrow> error option \<times> udpBridgeConn" where
  "Close c =
     (let c1 = c\<lparr>closed := True\<rparr>
      in case sock_Close (UDPConn c1) of (e, s) \<Rightarrow> (e, c1\<lparr>UDPConn := s\<rparr>))"

subsection \<open>The pool of handleUDPtoTCP\<close>

text \<open>The member that lines 347-353 construct.\<close>

definition newMember :: "udpconn \<Rightarrow> netaddr option \<Rightarrow> uAddr \<Rightarrow> udpBridgeConn" where
  "newMember relay src d =
     \<lparr>UDPConn = relay, udpSrc = src, initBuf = None, waitingMore_buf = [],
      waitingMore_remain = 0, incompleteLen = False, socks = True, closed = False,
      dst = Some d\<rparr>"

text \<open>
  Modelled from the spec: \<^verbatim>\<open>ProxyClient.DialUpstream\<close> is defined outside the file.
  Section 4.4 (step 5) and section 7 say of it that it establishes one upstream tunnel
  connection using the member as frame source and sink, and that after a dial failure the
  member stays unused and "still counts as closed for supervision purposes". Whether the
  dial succeeds is a parameter; a failed dial closes the member it was given (\<^verbatim>\<open>Close\<close>
  is the only code that sets the flag) and reports an error.
\<close>

definition DialUpstream :: "bool \<Rightarrow> udpBridgeConn \<Rightarrow> error option \<times> udpBridgeConn" where
  "DialUpstream ok src = (if ok then (None, src) else (Some DialError, snd (Close src)))"

text \<open>
  The loop of lines 346-364, from index \<open>i\<close> on: \<open>dial i\<close> says whether the dial for
  member \<open>i\<close> succeeds; the error of a failed dial is only logged. The socket is handed
  on as the previous member leaves it.
\<close>

function dialMembers ::
  "(nat \<Rightarrow> bool) \<Rightarrow> udpconn \<Rightarrow> netaddr option \<Rightarrow> uAddr \<Rightarrow> byte list \<Rightarrow> nat \<Rightarrow> nat \<Rightarrow>
     udpBridgeConn option list \<Rightarrow> udpBridgeConn option list" where
  "dialMembers dial relay src d seed maxConns i srcs =
     (if i < maxConns then
        (let m = newMember relay src d;
             m0 = (if i = 0 then m\<lparr>initBuf := Some seed\<rparr> else m);
             m' = snd (DialUpstream (dial i) m0)
         in dialMembers dial (UDPConn m') src d seed maxConns (i + 1) (srcs[i := Some m']))
      else srcs)"
  by pat_completeness auto
termination
  by (relation "measure (\<lambda>(dial, relay, src, d, seed, maxConns, i, srcs). maxConns - i)") auto

declare dialMembers.simps [simp del]

text \<open>Lines 368-373: the members whose \<^verbatim>\<open>closed\<close> flag is set.\<close>

fun countClosed :: "udpBridgeConn option list \<Rightarrow> nat \<Rightarrow> nat outcome" where
  "countClosed [] count = Returns count"
| "countClosed (None # rest) count = Panics NilDereference"
| "countClosed (Some src # rest) count =
     countClosed rest (if closed src then count + 1 else count)"

text \<open>
  The supervision loop of lines 367-380. \<open>tick\<close> is what the tunnel tasks do to the
  members while the loop sleeps for a second. The loop may run forever: \<open>None\<close>.
\<close>

partial_function (option) supervise ::
  "(udpBridgeConn option list \<Rightarrow> udpBridgeConn option list) \<Rightarrow> nat \<Rightarrow>
     udpBridgeConn option list \<Rightarrow> udpBridgeConn option list outcome option" where
  "supervise tick maxConns srcs =
     (case countClosed srcs 0 of
        Panics p \<Rightarrow> Some (Panics p)
      | Returns count \<Rightarrow>
          if count = maxConns then Some (Returns srcs)
          else supervise tick maxConns (tick srcs))"

declare supervise.simps [code]

text \<open>
  \<^verbatim>\<open>handleUDPtoTCP\<close> from line 326 on: the first datagram, its header, the pool and the
  supervision; the result is the list of members when the function returns (empty when it
  returns before the pool exists). The reply to the client of lines 320-324 and the
  deferred closes of lines 316-317 do not bear on the pool and are left out.
\<close>

definition handleUDPtoTCP ::
  "(nat \<Rightarrow> bool) \<Rightarrow> (udpBridgeConn option list \<Rightarrow> udpBridgeConn option list) \<Rightarrow> nat \<Rightarrow> udpconn \<Rightarrow>
     udpBridgeConn option list outcome option" where
  "handleUDPtoTCP dial tick maxConns relay =
     (case ReadFrom relay (replicate 2048 0) of
        ((n, src, Some e), buf, relay') \<Rightarrow> Some (Returns [])
      | ((n, src, None), buf, relay') \<Rightarrow>
          (case fst (parseUDPHeader None (Some (take n buf)) True) of
             Panics p \<Rightarrow> Some (Panics p)
           | Returns (_, _, Some e) \<Rightarrow> Some (Returns [])
           | Returns (_, None, None) \<Rightarrow> Some (Panics NilDereference)
           | Returns (_, Some d, None) \<Rightarrow>
               supervise tick maxConns
                 (dialMembers dial relay' src d (slice buf (size_hdr d) n) maxConns 0
                    (replicate maxConns None))))"

subsection \<open>A socket and a destination for the examples\<close>

text \<open>An open socket with nothing to deliver, nothing sent, and every send succeeding.\<close>

definition healthy :: udpconn where
  "healthy = \<lparr>inbox = [], outbox = [], sendfail = [], sock_closed = False\<rparr>"

text \<open>
  Header templates of the shape that \<^verbatim>\<open>write\<close> relies on: 10 bytes with address type
  1, and 22 bytes with address type 4, address and port zero.
\<close>

definition exampleTemplates :: templates where
  "exampleTemplates =
     \<lparr>udpHeaderIPv4 = [0, 0, 0, 1, 0, 0, 0, 0, 0, 0],
      udpHeaderIPv6 = [0, 0, 0, 4, 0, 0, 0, 0, 0, 0, 0, 0, 0, 0, 0, 0, 0, 0, 0, 0, 0, 0]\<rparr>"

text \<open>The destination 1.2.3.4:53, as the parser returns it.\<close>

definition dst1234 :: uAddr where
  "dst1234 = \<lparr>ip = Some [1, 2, 3, 4], host = [], port = 53, size_hdr = 10\<rparr>"

section \<open>Properties of the header parser\<close>

lemmas socks_consts =
  socksVersion5_def socksAddrIPv4_def socksAddrDomain_def socksAddrIPv6_def IPv4len_def IPv6len_def

lemma parseFrom_size:
  assumes "parseFrom cn buf n omitCheck = (Returns (m, Some a, e), cn')"
  shows "(buf ! 3 = socksAddrIPv4 \<and> size_hdr a = 10)
       \<or> (buf ! 3 = socksAddrIPv6 \<and> size_hdr a = 22)
       \<or> (buf ! 3 = socksAddrDomain \<and> size_hdr a = 5 + unat (buf ! 4) + 2)"
  using assms
  by (auto simp: parseFrom_def addrSize_def extractAddr_def Let_def socks_consts
      split: if_splits outcome.splits option.splits sum.splits prod.splits)

lemma parseFrom_badtype:
  assumes "3 < length buf" "omitCheck \<or> checkVersion buf = Returns None"
    "buf ! 3 \<noteq> socksAddrIPv4" "buf ! 3 \<noteq> socksAddrIPv6" "buf ! 3 \<noteq> socksAddrDomain"
  shows "parseFrom cn buf n omitCheck
           = (Returns (0, None, Some (InvalidAddressType (buf ! 3))), cn)"
  using assms
  by (auto simp: parseFrom_def addrSize_def)

lemma parse_IPv4_example:
  "parseUDPHeader None (Some [0, 0, 0, 1, 1, 2, 3, 4, 0, 53]) True
     = (Returns (0, Some \<lparr>ip = Some [1, 2, 3, 4], host = [], port = 53, size_hdr = 10\<rparr>, None),
        None)"
  by (simp add: parseUDPHeader_def parseFrom_def addrSize_def extractAddr_def socks_consts
      slice_def Uint16_def)

lemma parse_IPv6_example:
  "parseUDPHeader None
     (Some [0, 0, 0, 4, 1, 2, 3, 4, 5, 6, 7, 8, 9, 10, 11, 12, 13, 14, 15, 16, 0, 53]) True
     = (Returns (0, Some \<lparr>ip = Some [1, 2, 3, 4, 5, 6, 7, 8, 9, 10, 11, 12, 13, 14, 15, 16],
                           host = [], port = 53, size_hdr = 22\<rparr>, None),
        None)"
  by (simp add: parseUDPHeader_def parseFrom_def addrSize_def extractAddr_def socks_consts
      slice_def Uint16_def)

text \<open>
  Claim C1, as the code has it. Whenever \<^verbatim>\<open>parseUDPHeader\<close> hands back an address, the
  address-type byte at offset 3 of the header has fixed the recorded size: IPv4 gives 10
  (that is \<open>3+1+4+2\<close>), IPv6 gives 22 (\<open>3+1+16+2\<close>), a domain gives 5 + (the length byte
  at offset 4) + 2. This holds for a supplied buffer, with or without a live connection,
  and for the buffer that the parser itself fills from the connection. Any other
  address-type byte, once the version check has passed or is skipped, makes the parse
  return the protocol error "invalid address type" and no address.
\<close>

theorem parseUDPHeader_size_by_address_type:
  "(parseUDPHeader cn (Some buf) omitCheck = (Returns (m, Some a, e), cn') \<longrightarrow>
      (buf ! 3 = socksAddrIPv4 \<and> size_hdr a = 10)
    \<or> (buf ! 3 = socksAddrIPv6 \<and> size_hdr a = 22)
    \<or> (buf ! 3 = socksAddrDomain \<and> size_hdr a = 5 + unat (buf ! 4) + 2))
 \<and> (3 < length buf \<and> (omitCheck \<or> checkVersion buf = Returns None)
      \<and> buf ! 3 \<noteq> socksAddrIPv4 \<and> buf ! 3 \<noteq> socksAddrIPv6 \<and> buf ! 3 \<noteq> socksAddrDomain \<longrightarrow>
      parseUDPHeader cn (Some buf) omitCheck
        = (Returns (0, None, Some (InvalidAddressType (buf ! 3))), cn)
      \<and> isProtocolError (InvalidAddressType (buf ! 3)))
 \<and> (parseUDPHeader (Some c) None omitCheck = (Returns (m, Some a, e), cn')
      \<and> hdr = fst (snd (ReadAtLeast c (replicate 263 0) 10)) \<longrightarrow>
      (hdr ! 3 = socksAddrIPv4 \<and> size_hdr a = 10)
    \<or> (hdr ! 3 = socksAddrIPv6 \<and> size_hdr a = 22)
    \<or> (hdr ! 3 = socksAddrDomain \<and> size_hdr a = 5 + unat (hdr ! 4) + 2))"
proof (intro conjI impI)
  assume "parseUDPHeader cn (Some buf) omitCheck = (Returns (m, Some a, e), cn')"
  then show "(buf ! 3 = socksAddrIPv4 \<and> size_hdr a = 10)
    \<or> (buf ! 3 = socksAddrIPv6 \<and> size_hdr a = 22)
    \<or> (buf ! 3 = socksAddrDomain \<and> size_hdr a = 5 + unat (buf ! 4) + 2)"
    using parseFrom_size [of cn buf 0 omitCheck m a e cn'] by (simp add: parseUDPHeader_def)
next
  assume "3 < length buf \<and> (omitCheck \<or> checkVersion buf = Returns None)
      \<and> buf ! 3 \<noteq> socksAddrIPv4 \<and> buf ! 3 \<noteq> socksAddrIPv6 \<and> buf ! 3 \<noteq> socksAddrDomain"
  then show "parseUDPHeader cn (Some buf) omitCheck
        = (Returns (0, None, Some (InvalidAddressType (buf ! 3))), cn)"
    using parseFrom_badtype [of buf omitCheck cn 0] by (simp add: parseUDPHeader_def)
  show "isProtocolError (InvalidAddressType (buf ! 3))" by simp
next
  assume "parseUDPHeader (Some c) None omitCheck = (Returns (m, Some a, e), cn')
      \<and> hdr = fst (snd (ReadAtLeast c (replicate 263 0) 10))"
  then obtain n c' where "parseFrom (Some c') hdr n omitCheck = (Returns (m, Some a, e), cn')"
    by (auto simp: parseUDPHeader_def IPv4len_def split: prod.splits option.splits)
  then show "(hdr ! 3 = socksAddrIPv4 \<and> size_hdr a = 10)
    \<or> (hdr ! 3 = socksAddrIPv6 \<and> size_hdr a = 22)
    \<or> (hdr ! 3 = socksAddrDomain \<and> size_hdr a = 5 + unat (hdr ! 4) + 2)"
    by (rule parseFrom_size)
qed

text \<open>
  The theorem at an IPv4 header for 1.2.3.4:53, at an IPv6 header, and at a header whose
  address-type byte is 9.
\<close>

theorem parseUDPHeader_size_by_address_type_witness:
  "size_hdr \<lparr>ip = Some [1, 2, 3, 4], host = [], port = 53, size_hdr = 10\<rparr> = 10
   \<and> size_hdr \<lparr>ip = Some [1, 2, 3, 4, 5, 6, 7, 8, 9, 10, 11, 12, 13, 14, 15, 16], host = [],
               port = 53, size_hdr = 22\<rparr> = 22
   \<and> parseUDPHeader None (Some [5, 1, 0, 9, 1, 2, 3, 4, 0, 53]) False
       = (Returns (0, None, Some (InvalidAddressType 9)), None)"
proof -
  have bad: "3 < length [5, 1, 0, 9, 1, 2, 3, 4, 0, 53 :: byte]
      \<and> (False \<or> checkVersion [5, 1, 0, 9, 1, 2, 3, 4, 0, 53] = Returns None)
      \<and> [5, 1, 0, 9, 1, 2, 3, 4, 0, 53] ! 3 \<noteq> socksAddrIPv4
      \<and> [5, 1, 0, 9, 1, 2, 3, 4, 0, 53] ! 3 \<noteq> socksAddrIPv6
      \<and> [5, 1, 0, 9, 1, 2, 3, 4, 0, 53] ! 3 \<noteq> socksAddrDomain"
    by (simp add: checkVersion_def socks_consts)
  show ?thesis
    using parse_IPv4_example parse_IPv6_example bad
      parseUDPHeader_size_by_address_type
        [where cn = None and buf = "[0, 0, 0, 1, 1, 2, 3, 4, 0, 53]" and omitCheck = True
           and m = 0 and e = None and cn' = None
           and a = "\<lparr>ip = Some [1, 2, 3, 4], host = [], port = 53, size_hdr = 10\<rparr>"]
      parseUDPHeader_size_by_address_type
        [where cn = None
           and buf = "[0, 0, 0, 4, 1, 2, 3, 4, 5, 6, 7, 8, 9, 10, 11, 12, 13, 14, 15, 16, 0, 53]"
           and omitCheck = True and m = 0 and e = None and cn' = None
           and a = "\<lparr>ip = Some [1, 2, 3, 4, 5, 6, 7, 8, 9, 10, 11, 12, 13, 14, 15, 16],
                     host = [], port = 53, size_hdr = 22\<rparr>"]
      parseUDPHeader_size_by_address_type
        [where cn = None and buf = "[5, 1, 0, 9, 1, 2, 3, 4, 0, 53]" and omitCheck = False]
    by (simp add: socks_consts)
qed

text \<open>
  Claim C1 as the specification words it gives an IPv4 header the size 9. The parser
  records 10 for the IPv4 header of 1.2.3.4:53.
\<close>

theorem parseUDPHeader_IPv4_size_is_not_9:
  "fst (parseUDPHeader None (Some [0, 0, 0, 1, 1, 2, 3, 4, 0, 53]) True)
     = Returns (0, Some \<lparr>ip = Some [1, 2, 3, 4], host = [], port = 53, size_hdr = 10\<rparr>, None)
   \<and> [0, 0, 0, 1, 1, 2, 3, 4, 0, 53] ! 3 = socksAddrIPv4
   \<and> size_hdr \<lparr>ip = Some [1, 2, 3, 4], host = [], port = 53, size_hdr = 10\<rparr> \<noteq> 9"
  by (simp add: parse_IPv4_example socks_consts)

text \<open>
  Claim C9. Let \<^verbatim>\<open>parseUDPHeader\<close> be called without a live connection, on a buffer from
  which the header size \<open>sz\<close> is computed (the version check passing or being skipped, and
  the address-type byte, with the length byte of a domain, selecting \<open>sz\<close>). When the
  buffer holds fewer than \<open>sz\<close> bytes the parse returns \<^verbatim>\<open>io.EOF\<close> and no address; when
  it holds at least \<open>sz\<close> bytes the parse succeeds with an address of that size.
\<close>

theorem parseUDPHeader_short_buffer:
  assumes "addrSize buf = Returns (Inr sz)" "omitCheck \<or> checkVersion buf = Returns None"
  shows "(length buf < sz \<longrightarrow>
            parseUDPHeader None (Some buf) omitCheck = (Returns (0, None, Some EOF), None))
       \<and> (sz \<le> length buf \<longrightarrow>
            (\<exists>m a. parseUDPHeader None (Some buf) omitCheck = (Returns (m, Some a, None), None)
                 \<and> size_hdr a = sz))"
  using assms
  by (auto simp: parseUDPHeader_def parseFrom_def extractAddr_def Let_def split: prod.splits)

text \<open>
  The theorem at a domain header that announces three bytes of name and holds two, and at
  the complete header.
\<close>

theorem parseUDPHeader_short_buffer_witness:
  "addrSize [0, 0, 0, 3, 3, 65, 66] = Returns (Inr 10)
   \<and> parseUDPHeader None (Some [0, 0, 0, 3, 3, 65, 66]) True = (Returns (0, None, Some EOF), None)
   \<and> addrSize [0, 0, 0, 3, 3, 65, 66, 67, 0, 53] = Returns (Inr 10)
   \<and> (\<exists>m a. parseUDPHeader None (Some [0, 0, 0, 3, 3, 65, 66, 67, 0, 53]) True
              = (Returns (m, Some a, None), None) \<and> size_hdr a = 10)"
proof -
  have s1: "addrSize [0, 0, 0, 3, 3, 65, 66] = Returns (Inr 10)"
    by (simp add: addrSize_def socks_consts)
  have s2: "addrSize [0, 0, 0, 3, 3, 65, 66, 67, 0, 53] = Returns (Inr 10)"
    by (simp add: addrSize_def socks_consts)
  show ?thesis
    using s1 s2 parseUDPHeader_short_buffer [OF s1, of True]
      parseUDPHeader_short_buffer [OF s2, of True]
    by simp
qed

section \<open>Properties of the frame reader\<close>

lemma parse_nil_panic:
  "fst (parseUDPHeader None (Some x) omitCheck) = Panics p \<Longrightarrow> p = IndexOutOfRange"
  by (auto simp: parseUDPHeader_def parseFrom_def addrSize_def checkVersion_def extractAddr_def
      Let_def split: if_splits outcome.splits option.splits sum.splits prod.splits)

text \<open>
  Claim C6. A buffer of fewer than 2050 bytes makes \<^verbatim>\<open>Read\<close> panic with the connection
  and the buffer untouched: the seed buffer is still there and the socket has not been
  read. With a buffer of 2050 bytes or more that panic does not occur.
\<close>

theorem Read_buffer_contract:
  "(length b < 2050 \<longrightarrow> Read c b = (Panics PacketSizePanic, b, c))
   \<and> (2050 \<le> length b \<longrightarrow> fst (Read c b) \<noteq> Panics PacketSizePanic)"
proof (intro conjI impI)
  assume "length b < 2050"
  then show "Read c b = (Panics PacketSizePanic, b, c)"
    by (simp add: Read_def)
next
  assume "2050 \<le> length b"
  then show "fst (Read c b) \<noteq> Panics PacketSizePanic"
    by (auto simp: Read_def Read_PUT_HEADER_def Let_def dest!: parse_nil_panic
        split: option.splits prod.splits outcome.splits)
qed

text \<open>
  The theorem at a buffer of 2049 bytes and at one of 2050 bytes, for pool member 0 with
  the seed "PING".
\<close>

theorem Read_buffer_contract_witness:
  "Read ((newMember healthy (Some 9) dst1234)\<lparr>initBuf := Some [80, 73, 78, 71]\<rparr>)
       (replicate 2049 0)
     = (Panics PacketSizePanic, replicate 2049 0,
        (newMember healthy (Some 9) dst1234)\<lparr>initBuf := Some [80, 73, 78, 71]\<rparr>)
   \<and> fst (Read ((newMember healthy (Some 9) dst1234)\<lparr>initBuf := Some [80, 73, 78, 71]\<rparr>)
            (replicate 2050 0)) \<noteq> Panics PacketSizePanic"
  using Read_buffer_contract
      [of "replicate 2049 0"
          "(newMember healthy (Some 9) dst1234)\<lparr>initBuf := Some [80, 73, 78, 71]\<rparr>"]
    Read_buffer_contract
      [of "replicate 2050 0"
          "(newMember healthy (Some 9) dst1234)\<lparr>initBuf := Some [80, 73, 78, 71]\<rparr>"]
  by simp

lemma length_PutUint16: "length (PutUint16 v) = 2"
  by (simp add: PutUint16_def)

lemma Uint16_PutUint16: "v < 65536 \<Longrightarrow> Uint16 (PutUint16 v @ xs) = v"
  by (simp add: Uint16_def PutUint16_def unat_of_nat take_bit_nat_eq_self_iff)

lemma length_copy_bytes: "length (copy_bytes x y) = length x"
  by (simp add: copy_bytes_def)

lemma length_copy_at: "length (copy_at x off y) = length x"
  by (simp add: copy_at_def length_copy_bytes)

lemma copy_at_fits:
  "off + length y \<le> length x \<Longrightarrow> copy_at x off y = take off x @ y @ drop (off + length y) x"
  by (simp add: copy_at_def copy_bytes_def add.commute)

lemma addrSize_bounds: "addrSize buf = Returns (Inr sz) \<Longrightarrow> 7 \<le> sz \<and> 3 < length buf"
  by (auto simp: addrSize_def socks_consts split: if_splits)

lemma addrSize_append:
  "addrSize hdr = Returns (Inr sz) \<Longrightarrow> addrSize (hdr @ P) = Returns (Inr sz)"
  by (auto simp: addrSize_def nth_append split: if_splits)

lemma parse_short_or_ok:
  assumes "addrSize buf = Returns (Inr sz)" "sz \<le> length buf"
  shows "\<exists>m a. parseUDPHeader None (Some buf) True = (Returns (m, Some a, None), None)
           \<and> size_hdr a = sz"
  using assms
  by (auto simp: parseUDPHeader_def parseFrom_def extractAddr_def Let_def split: prod.splits)

lemma addrSize_upper: "addrSize buf = Returns (Inr sz) \<Longrightarrow> sz \<le> 262"
proof -
  have "unat (buf ! 4) \<le> 255" using unsigned_less [of "buf ! 4", where ?'a = nat] by simp
  then show "addrSize buf = Returns (Inr sz) \<Longrightarrow> sz \<le> 262"
    by (auto simp: addrSize_def socks_consts split: if_splits)
qed

text \<open>
  What \<^verbatim>\<open>Read\<close> returns in SOCKS mode for any datagram that begins with a valid header:
  the socket read cuts the datagram to the length of the buffer, and \<open>m\<close> bytes of
  payload are left.
\<close>

lemma Read_socks_datagram:
  assumes mode: "socks c" "initBuf c = None"
    and sock: "\<not> sock_closed (UDPConn c)" "inbox (UDPConn c) = Inr (src, hdr @ P) # rest"
    and hdr: "addrSize hdr = Returns (Inr (length hdr))"
    and buf: "2050 \<le> length b"
    and m: "m = min (length b) (length (hdr @ P)) - length hdr"
  shows "fst (Read c b) = Returns (int m + 2, None)
       \<and> take 2 (fst (snd (Read c b))) = PutUint16 m"
proof -
  let ?d = "hdr @ P"
  let ?n = "min (length b) (length ?d)"
  let ?b1 = "copy_bytes b ?d"
  have rf: "ReadFrom (UDPConn c) b
      = ((?n, Some src, None), ?b1, (UDPConn c)\<lparr>inbox := rest\<rparr>)"
    using sock by (simp add: ReadFrom_def)
  from addrSize_bounds [OF hdr] addrSize_upper [OF hdr]
  have h: "7 \<le> length hdr" "length hdr \<le> length b" using buf by simp_all
  have tk: "take ?n ?b1 = hdr @ take m P"
    using h by (auto simp: copy_bytes_def m min_def)
  have sz: "addrSize (hdr @ take m P) = Returns (Inr (length hdr))"
    using hdr by (rule addrSize_append)
  obtain mth a where
    pr: "parseUDPHeader None (Some (hdr @ take m P)) True = (Returns (mth, Some a, None), None)"
    and sa: "size_hdr a = length hdr"
    using parse_short_or_ok [OF sz] by auto
  have "Read c b = (Returns (int m + 2, None),
          PutUint16 m @ drop 2 (copy_at ?b1 2 (slice ?b1 (length hdr) ?n)),
          c\<lparr>UDPConn := (UDPConn c)\<lparr>inbox := rest\<rparr>, udpSrc := Some src\<rparr>)"
    using buf mode rf pr sa tk m
    by (simp add: Read_def Read_PUT_HEADER_def del: append_assoc)
  then show ?thesis by (simp add: length_PutUint16)
qed

text \<open>
  Claim C7, as the code has it. In SOCKS mode, with no seed pending, let the next datagram
  on the socket be a valid SOCKS5 UDP header \<open>hdr\<close> (its address-type byte selects exactly
  the length of \<open>hdr\<close>) followed by a payload \<open>P\<close>, the datagram being no longer than the
  caller's buffer and \<open>P\<close> being shorter than \<open>2^16\<close> bytes. Then \<^verbatim>\<open>Read\<close> returns
  \<open>len(P) + 2\<close> without error, and the caller's buffer starts with the two-byte
  big-endian encoding of \<open>len(P)\<close> followed by exactly the bytes of \<open>P\<close>.
\<close>

theorem Read_strips_socks_header:
  assumes mode: "socks c" "initBuf c = None"
    and sock: "\<not> sock_closed (UDPConn c)" "inbox (UDPConn c) = Inr (src, hdr @ P) # rest"
    and hdr: "addrSize hdr = Returns (Inr (length hdr))"
    and buf: "2050 \<le> length b" "length (hdr @ P) \<le> length b"
    and len: "length P < 65536"
  shows "\<exists>b' c'. Read c b = (Returns (int (length P) + 2, None), b', c')
           \<and> take (2 + length P) b' = PutUint16 (length P) @ P
           \<and> Uint16 b' = length P
           \<and> length b' = length b"
proof -
  let ?d = "hdr @ P"
  let ?b1 = "copy_bytes b ?d"
  have rf: "ReadFrom (UDPConn c) b
      = ((length ?d, Some src, None), ?b1, (UDPConn c)\<lparr>inbox := rest\<rparr>)"
    using sock buf by (simp add: ReadFrom_def min_def)
  have b1: "?b1 = hdr @ P @ drop (length ?d) b"
    using buf by (simp add: copy_bytes_def)
  have tk: "take (length ?d) ?b1 = ?d"
    by (simp add: b1)
  from addrSize_bounds [OF hdr] have h7: "7 \<le> length hdr" by simp
  have sz: "addrSize ?d = Returns (Inr (length hdr))"
    using hdr by (rule addrSize_append)
  obtain m a where pr: "parseUDPHeader None (Some ?d) True = (Returns (m, Some a, None), None)"
    and sa: "size_hdr a = length hdr"
    using parse_short_or_ok [OF sz] by auto
  have sl: "slice ?b1 (length hdr) (length ?d) = P"
    by (simp add: b1 slice_def)
  have fin: "PutUint16 (length P) @ drop 2 (copy_at ?b1 2 P)
        = PutUint16 (length P) @ P @ drop (2 + length P) ?b1"
  proof -
    have "length ?b1 = length b" by (simp add: length_copy_bytes)
    then have "2 + length P \<le> length ?b1" using buf h7 by simp
    then show ?thesis by (simp add: copy_at_fits)
  qed
  have "Read c b = (Returns (int (length P) + 2, None),
          PutUint16 (length P) @ P @ drop (2 + length P) ?b1,
          c\<lparr>UDPConn := (UDPConn c)\<lparr>inbox := rest\<rparr>, udpSrc := Some src\<rparr>)"
    using buf mode rf pr sa sl fin tk
    by (simp add: Read_def Read_PUT_HEADER_def del: append_assoc)
  moreover have "length (PutUint16 (length P) @ P @ drop (2 + length P) ?b1) = length b"
    using buf h7 by (simp add: b1 length_PutUint16)
  ultimately show ?thesis
    using len by (simp add: Uint16_PutUint16 length_PutUint16)
qed

text \<open>
  The theorem at the datagram of the specification's scenario: the IPv4 header for
  1.2.3.4:53 followed by "PING", read into a buffer of 2050 bytes.
\<close>

theorem Read_strips_socks_header_witness:
  "\<exists>b' c'. Read (newMember (healthy\<lparr>inbox := [Inr (9, [0, 0, 0, 1, 1, 2, 3, 4, 0, 53] @ [80, 73, 78, 71])]\<rparr>)
                    None dst1234) (replicate 2050 0)
             = (Returns (6, None), b', c')
           \<and> take 6 b' = [0, 4, 80, 73, 78, 71]"
proof -
  have h: "addrSize [0, 0, 0, 1, 1, 2, 3, 4, 0, 53]
             = Returns (Inr (length [0, 0, 0, 1, 1, 2, 3, 4, 0, 53 :: byte]))"
    by (simp add: addrSize_def socks_consts)
  show ?thesis
    using Read_strips_socks_header
      [where c = "newMember (healthy\<lparr>inbox := [Inr (9, [0, 0, 0, 1, 1, 2, 3, 4, 0, 53] @ [80, 73, 78, 71])]\<rparr>)
                    None dst1234"
         and src = 9 and hdr = "[0, 0, 0, 1, 1, 2, 3, 4, 0, 53]" and P = "[80, 73, 78, 71]"
         and rest = "[]" and b = "replicate 2050 0", OF _ _ _ _ h]
    by (simp add: newMember_def healthy_def PutUint16_def) blast
qed

text \<open>
  Claim C7 as the specification words it covers every datagram. A datagram that is longer
  than the caller's buffer is cut by the socket read: the IPv4 header for 1.2.3.4:53
  followed by a payload of 2048 bytes, read into a buffer of 2050 bytes, gives the result
  2042 without error and the length prefix 2040, not 2050 and 2048.
\<close>

theorem Read_cuts_long_datagram:
  "fst (Read (newMember
                (healthy\<lparr>inbox := [Inr (9, [0, 0, 0, 1, 1, 2, 3, 4, 0, 53] @ replicate 2048 7)]\<rparr>)
                None dst1234) (replicate 2050 0))
     = Returns (2042, None)
   \<and> take 2 (fst (snd (Read (newMember
                (healthy\<lparr>inbox := [Inr (9, [0, 0, 0, 1, 1, 2, 3, 4, 0, 53] @ replicate 2048 7)]\<rparr>)
                None dst1234) (replicate 2050 0))))
     = PutUint16 2040
   \<and> int (length (replicate 2048 (7 :: byte))) + 2 = 2050"
proof -
  have h: "addrSize [0, 0, 0, 1, 1, 2, 3, 4, 0, 53]
             = Returns (Inr (length [0, 0, 0, 1, 1, 2, 3, 4, 0, 53 :: byte]))"
    by (simp add: addrSize_def socks_consts)
  show ?thesis
    using Read_socks_datagram
      [where c = "newMember
                (healthy\<lparr>inbox := [Inr (9, [0, 0, 0, 1, 1, 2, 3, 4, 0, 53] @ replicate 2048 7)]\<rparr>)
                None dst1234"
         and src = 9 and hdr = "[0, 0, 0, 1, 1, 2, 3, 4, 0, 53]" and P = "replicate 2048 7"
         and rest = "[]" and b = "replicate 2050 0" and m = 2040, OF _ _ _ _ h]
    by (simp add: newMember_def healthy_def)
qed

section \<open>Properties of the frame writer\<close>

subsection \<open>One call of Write\<close>

lemma Write_Ret:
  "Write_pre T c b = Ret n err c' bf \<Longrightarrow> Write T c b = (Returns (deferred n err bf), c')"
  by (subst Write.simps) simp

lemma Write_Pan: "Write_pre T c b = Pan p c' \<Longrightarrow> Write T c b = (Panics p, c')"
  by (subst Write.simps) simp

lemma Write_Rec:
  "Write_pre T c b = Rec c' bf rest \<Longrightarrow>
   Write T c b =
     (case Write T c' rest of
        (Returns (n, err), c'') \<Rightarrow> (Returns (deferred n err bf), c'')
      | (Panics p, c'') \<Rightarrow> (Panics p, c''))"
  by (subst Write.simps) simp

lemma Write_empty: "Write T c [] = (Returns (0, None), c)"
  by (simp add: Write_Ret [of T c "[]" 0 None c "[]"] Write_pre_def deferred_def)

text \<open>\<^verbatim>\<open>write\<close> changes the socket only, and reads four fields of the connection.\<close>

lemma write_udp_fields:
  "incompleteLen (snd (write_udp T c b)) = incompleteLen c"
  "waitingMore_remain (snd (write_udp T c b)) = waitingMore_remain c"
  "waitingMore_buf (snd (write_udp T c b)) = waitingMore_buf c"
  by (simp_all add: write_udp_def split: prod.splits option.splits outcome.splits)

lemma write_udp_cong:
  assumes "socks c = socks c'" "udpSrc c = udpSrc c'" "dst c = dst c'" "UDPConn c = UDPConn c'"
  shows "fst (write_udp T c b) = fst (write_udp T c' b)"
    and "UDPConn (snd (write_udp T c b)) = UDPConn (snd (write_udp T c' b))"
  using assms
  by (simp_all add: write_udp_def split: prod.splits option.splits outcome.splits)

lemma write_udp_no_peer:
  "socks c \<Longrightarrow> udpSrc c = None \<Longrightarrow> write_udp T c b = (Returns (0, None), c)"
  by (simp add: write_udp_def)

lemma step_state:
  "Write_pre T c b = (case r of Returns (n, err) \<Rightarrow> Ret n err c' bf | Panics p \<Rightarrow> Pan p c')
     \<Longrightarrow> snd (Write T c b) = c'"
  by (cases r) (auto simp: Write_Ret Write_Pan)

subsection \<open>A frame delivered in pieces\<close>

lemma feed_empty_pieces: "concat ps = [] \<Longrightarrow> feed T c ps = c"
  by (induction ps arbitrary: c) (simp_all add: Write_empty)

text \<open>While the payload is awaited: the pieces \<open>ps\<close> bring exactly the missing bytes.\<close>

lemma feed_awaiting_payload:
  assumes "\<not> incompleteLen c" "waitingMore_remain c = int (length rest)" "rest \<noteq> []"
    "concat ps = rest"
  shows "UDPConn (feed T c ps) = UDPConn (snd (write_udp T c (waitingMore_buf c @ rest)))"
  using assms
proof (induction ps arbitrary: c rest)
  case Nil
  then show ?case by simp
next
  case (Cons p ps)
  define r where "r = concat ps"
  have rest: "rest = p @ r" using Cons.prems by (simp add: r_def)
  show ?case
  proof (cases "p = []")
    case True
    with Cons.prems Cons.IH [of c rest] show ?thesis by (simp add: Write_empty)
  next
    case False
    show ?thesis
    proof (cases "r = []")
      case True
      let ?c1 = "c\<lparr>waitingMore_remain := waitingMore_remain c - int (length p)\<rparr>"
      have "Write_pre T c p =
          (case fst (write_udp T ?c1 (waitingMore_buf c @ p)) of
             Returns (n, err) \<Rightarrow> Ret n err (snd (write_udp T ?c1 (waitingMore_buf c @ p))) p
           | Panics q \<Rightarrow> Pan q (snd (write_udp T ?c1 (waitingMore_buf c @ p))))"
        using False Cons.prems(1,2) True rest
        by (simp add: Write_pre_def Let_def split: prod.splits outcome.splits)
      then have "snd (Write T c p) = snd (write_udp T ?c1 (waitingMore_buf c @ p))"
        by (rule step_state)
      moreover have "feed T (snd (Write T c p)) ps = snd (Write T c p)"
        using True by (intro feed_empty_pieces) (simp add: r_def)
      ultimately have "UDPConn (feed T c (p # ps))
          = UDPConn (snd (write_udp T ?c1 (waitingMore_buf c @ p)))"
        by simp
      also have "\<dots> = UDPConn (snd (write_udp T c (waitingMore_buf c @ p)))"
        by (rule write_udp_cong) simp_all
      finally show ?thesis using True rest by simp
    next
      case ne: False
      let ?c1 = "c\<lparr>waitingMore_remain := waitingMore_remain c - int (length p),
                    waitingMore_buf := waitingMore_buf c @ p\<rparr>"
      have pos: "0 < waitingMore_remain c" "waitingMore_remain c - int (length p) \<noteq> 0"
        "0 < waitingMore_remain c - int (length p)"
      proof -
        have "0 < length p" "0 < length r" using False ne by simp_all
        moreover have "length rest = length p + length r" by (simp add: rest)
        ultimately show "0 < waitingMore_remain c"
          "waitingMore_remain c - int (length p) \<noteq> 0"
          "0 < waitingMore_remain c - int (length p)"
          using Cons.prems(2) by linarith+
      qed
      have "Write_pre T c p = Ret (int (length p)) None ?c1 p"
        using False Cons.prems(1) pos by (simp add: Write_pre_def Let_def)
      then have w: "snd (Write T c p) = ?c1" by (simp add: Write_Ret)
      have "UDPConn (feed T ?c1 ps) = UDPConn (snd (write_udp T ?c1 (waitingMore_buf ?c1 @ r)))"
        using Cons.prems(1,2) ne rest by (intro Cons.IH) (simp_all add: r_def)
      also have "\<dots> = UDPConn (snd (write_udp T c (waitingMore_buf ?c1 @ r)))"
        by (rule write_udp_cong) simp_all
      finally show ?thesis using w rest by simp
    qed
  qed
qed

text \<open>
  A call that reaches \<^verbatim>\<open>TEST\<close> with the frame length \<open>ln\<close> and the first bytes \<open>q\<close> of
  the payload, the pieces \<open>ps\<close> bringing the rest.
\<close>

lemma feed_after_TEST:
  assumes c: "\<not> incompleteLen c"
    and len: "length payload = ln" and pay: "payload = q @ r" and r: "concat ps = r"
    and st: "Write_pre T c0 p = Write_TEST T c p ln q"
    and same: "socks c = socks c0" "udpSrc c = udpSrc c0" "dst c = dst c0" "UDPConn c = UDPConn c0"
  shows "UDPConn (feed T c0 (p # ps)) = UDPConn (snd (write_udp T c0 payload))"
proof (cases "r = []")
  case True
  then have q: "q = payload" "length q = ln" using pay len by simp_all
  have "Write_pre T c0 p =
      (case fst (write_udp T c q) of
         Returns (n, err) \<Rightarrow> Ret n err (snd (write_udp T c q)) p
       | Panics x \<Rightarrow> Pan x (snd (write_udp T c q)))"
    using q by (simp add: st Write_TEST_def split: prod.splits outcome.splits)
  then have "snd (Write T c0 p) = snd (write_udp T c q)"
    by (rule step_state)
  moreover have "feed T (snd (Write T c0 p)) ps = snd (Write T c0 p)"
    using True r by (intro feed_empty_pieces) simp
  ultimately have "UDPConn (feed T c0 (p # ps)) = UDPConn (snd (write_udp T c q))"
    by simp
  also have "\<dots> = UDPConn (snd (write_udp T c0 q))"
    using same by (intro write_udp_cong) simp_all
  finally show ?thesis using q by simp
next
  case False
  let ?c1 = "c\<lparr>waitingMore_buf := q, waitingMore_remain := int ln - int (length q)\<rparr>"
  have lq: "length q < ln" "int ln - int (length q) = int (length r)"
    using False pay len by auto
  have "Write_pre T c0 p = Ret (int (length p)) None ?c1 p"
    using lq by (simp add: st Write_TEST_def)
  then have w: "snd (Write T c0 p) = ?c1" by (simp add: Write_Ret)
  have "UDPConn (feed T ?c1 ps) = UDPConn (snd (write_udp T ?c1 (waitingMore_buf ?c1 @ r)))"
    using c lq False r by (intro feed_awaiting_payload) simp_all
  also have "\<dots> = UDPConn (snd (write_udp T c0 (waitingMore_buf ?c1 @ r)))"
    using same by (intro write_udp_cong) simp_all
  finally show ?thesis using w pay by simp
qed

text \<open>While the second length byte is awaited.\<close>

lemma feed_awaiting_length:
  assumes "incompleteLen c" "waitingMore_buf c = [hi]"
    "length payload = Uint16 [hi, lo]" "concat ps = lo # payload"
  shows "UDPConn (feed T c ps) = UDPConn (snd (write_udp T c payload))"
  using assms
proof (induction ps arbitrary: c)
  case Nil
  then show ?case by simp
next
  case (Cons p ps)
  show ?case
  proof (cases p)
    case Nil
    with Cons.prems Cons.IH [of c] show ?thesis by (simp add: Write_empty)
  next
    case (Cons x q)
    define r where "r = concat ps"
    have x: "x = lo" and pay: "payload = q @ r"
      using Cons.prems(4) Cons by (simp_all add: r_def)
    have "Write_pre T c p
        = Write_TEST T (c\<lparr>incompleteLen := False\<rparr>) p (Uint16 [hi, lo]) q"
      using Cons.prems(1,2) Cons x by (simp add: Write_pre_def Let_def)
    moreover have "\<not> incompleteLen (c\<lparr>incompleteLen := False\<rparr>)" by simp
    moreover have "concat ps = r" by (simp only: r_def)
    ultimately show ?thesis
      using Cons.prems(3) pay
      by (intro feed_after_TEST [where c = "c\<lparr>incompleteLen := False\<rparr>" and q = q and r = r
            and ln = "Uint16 [hi, lo]"]) simp_all
  qed
qed

text \<open>From the idle state.\<close>

lemma feed_idle:
  assumes "\<not> incompleteLen c" "waitingMore_remain c \<le> 0"
    "length payload = Uint16 [hi, lo]" "concat ps = hi # lo # payload"
  shows "UDPConn (feed T c ps) = UDPConn (snd (write_udp T c payload))"
  using assms
proof (induction ps arbitrary: c)
  case Nil
  then show ?case by simp
next
  case (Cons p ps)
  define r where "r = concat ps"
  show ?case
  proof (cases p)
    case Nil
    with Cons.prems Cons.IH [of c] show ?thesis by (simp add: Write_empty)
  next
    case p1: (Cons x p')
    then have x: "x = hi" and tl: "p' @ r = lo # payload"
      using Cons.prems(4) by (simp_all add: r_def)
    show ?thesis
    proof (cases p')
      case Nil
      let ?c1 = "c\<lparr>waitingMore_buf := [hi], incompleteLen := True\<rparr>"
      have "Write_pre T c p = Ret 1 None ?c1 p"
        using Cons.prems(1,2) p1 Nil x by (simp add: Write_pre_def Write_parse_def)
      then have w: "snd (Write T c p) = ?c1" by (simp add: Write_Ret)
      have "UDPConn (feed T ?c1 ps) = UDPConn (snd (write_udp T ?c1 payload))"
        using Cons.prems(3) tl Nil by (intro feed_awaiting_length [where hi = hi and lo = lo])
          (simp_all add: r_def)
      also have "\<dots> = UDPConn (snd (write_udp T c payload))"
        by (rule write_udp_cong) simp_all
      finally show ?thesis using w by simp
    next
      case (Cons y q)
      then have y: "y = lo" and pay: "payload = q @ r" using tl by simp_all
      have "Write_pre T c p = Write_TEST T c p (Uint16 [hi, lo]) q"
        using Cons.prems(1,2) p1 Cons x y
        by (simp add: Write_pre_def Write_parse_def Uint16_def)
      moreover have "concat ps = r" by (simp only: r_def)
      ultimately show ?thesis
        using Cons.prems(1,3) pay
        by (intro feed_after_TEST [where c = c and q = q and r = r and ln = "Uint16 [hi, lo]"])
          simp_all
    qed
  qed
qed

text \<open>
  On the contents alone: for a complete frame (the length bytes \<open>hi, lo\<close> and a payload of
  that length) split into consecutive pieces \<open>ps\<close> in any way, empty pieces and single
  bytes included, the calls of \<^verbatim>\<open>Write\<close> from the idle state leave the socket as one call
  on the whole frame does, and that is the state after one \<^verbatim>\<open>write\<close> of the payload. This
  describes the code for pieces that the caller leaves as they are while the writer
  retains them; \<open>Write_reassembly_fresh_slices\<close> below states it on the store.
\<close>

lemma Write_reassembly_contents:
  assumes "\<not> incompleteLen c" "waitingMore_remain c \<le> 0"
    "length payload = Uint16 [hi, lo]" "concat ps = hi # lo # payload"
  shows "UDPConn (feed T c ps) = UDPConn (snd (Write T c (hi # lo # payload)))
       \<and> UDPConn (snd (Write T c (hi # lo # payload))) = UDPConn (snd (write_udp T c payload))"
proof -
  have split: "UDPConn (feed T c ps) = UDPConn (snd (write_udp T c payload))"
    using assms by (rule feed_idle)
  have "concat [hi # lo # payload] = hi # lo # payload" by simp
  with assms(1,2,3)
  have "UDPConn (feed T c [hi # lo # payload]) = UDPConn (snd (write_udp T c payload))"
    by (rule feed_idle)
  then have whole: "UDPConn (snd (Write T c (hi # lo # payload)))
      = UDPConn (snd (write_udp T c payload))"
    by simp
  from split whole show ?thesis by simp
qed

subsection \<open>Pieces in slices of their own\<close>

text \<open>
  When every piece arrives in a slice of its own that is tight, the functions on the store
  do what the functions on contents do: nothing overwrites a retained byte, and every
  \<^verbatim>\<open>append\<close> allocates.
\<close>

lemma length_contents: "shown h s \<Longrightarrow> length (contents h s) = sl_len s"
  by (auto simp: shown_def contents_def)

lemma contents_ext: "shown h s \<Longrightarrow> contents (h @ ext) s = contents h s"
  by (auto simp: shown_def contents_def nth_append)

lemma shown_ext: "shown h s \<Longrightarrow> shown (h @ ext) s"
  by (auto simp: shown_def nth_append)

lemma tight_ext: "tight h s \<Longrightarrow> tight (h @ ext) s"
  by (simp add: tight_def shown_ext)

lemma contents_from:
  "shown h s \<Longrightarrow> i \<le> sl_len s \<Longrightarrow> contents h (sl_from s i) = drop i (contents h s)"
  by (auto simp: shown_def contents_def sl_from_def drop_take add.commute)

lemma contents_upto:
  "shown h s \<Longrightarrow> j \<le> sl_len s \<Longrightarrow> contents h (sl_upto s j) = take j (contents h s)"
  by (auto simp: shown_def contents_def sl_upto_def min_def)

lemma shown_from: "shown h s \<Longrightarrow> i \<le> sl_len s \<Longrightarrow> shown h (sl_from s i)"
  by (auto simp: shown_def sl_from_def)

lemma shown_upto: "shown h s \<Longrightarrow> j \<le> sl_len s \<Longrightarrow> shown h (sl_upto s j)"
  by (auto simp: shown_def sl_upto_def)

lemma tight_from: "tight h s \<Longrightarrow> i \<le> sl_len s \<Longrightarrow> tight h (sl_from s i)"
  by (auto simp: tight_def shown_def sl_from_def)

lemma copy_at_nothing: "copy_at x k [] = x"
  by (simp add: copy_at_def copy_bytes_def)

lemma append_sl_tight:
  assumes "tight h s" "shown h t"
  shows "\<exists>ext. fst (append_sl h s t) = h @ ext
       \<and> contents (h @ ext) (snd (append_sl h s t)) = contents h s @ contents h t
       \<and> tight (h @ ext) (snd (append_sl h s t))"
proof (cases "sl_len t = 0")
  case True
  then have "contents h t = []" by (simp add: contents_def)
  with True assms(1) have "append_sl h s t = (h, s)"
    by (simp add: append_sl_def Let_def tight_def copy_at_nothing)
  with assms(1) \<open>contents h t = []\<close> show ?thesis
    by (intro exI [of _ "[]"]) simp
next
  case False
  with assms(1) have "append_sl h s t
      = (h @ [contents h s @ contents h t],
         \<lparr>sl_arr = length h, sl_off = 0, sl_len = sl_len s + sl_len t,
          sl_cap = sl_len s + sl_len t\<rparr>)"
    by (simp add: append_sl_def Let_def tight_def)
  moreover have "length (contents h s @ contents h t) = sl_len s + sl_len t"
    using assms by (simp add: length_contents tight_def)
  ultimately show ?thesis
    by (intro exI [of _ "[contents h s @ contents h t]"])
      (simp add: contents_def [of "h @ _"] tight_def shown_def)
qed

lemma shown_nil: "shown h nil_slice"
  by (simp add: shown_def nil_slice_def)

lemma tight_nil: "tight h nil_slice"
  by (simp add: tight_def shown_def nil_slice_def)

lemma write_udp_buf:
  "write_udp T (c\<lparr>waitingMore_buf := x\<rparr>) b
     = (fst (write_udp T c b), (snd (write_udp T c b))\<lparr>waitingMore_buf := x\<rparr>)"
  by (simp add: write_udp_def split: prod.splits option.splits outcome.splits)

lemma write_sl_view:
  "write_udp T (contents_view w) (contents (mem w) s)
     = (fst (write_sl T w s), contents_view (snd (write_sl T w s)))"
  "mem (snd (write_sl T w s)) = mem w" "wbuf (snd (write_sl T w s)) = wbuf w"
  by (simp_all add: write_sl_def contents_view_def write_udp_buf split: prod.splits)

lemma TEST_view:
  assumes "tight (mem w) (wbuf w)" "shown (mem w) b" "tight (mem w) buf"
  shows "step_view (WriteS_TEST T w b ln buf)
           = Write_TEST T (contents_view w) (contents (mem w) b) ln (contents (mem w) buf)"
    and "mem (step_writer (WriteS_TEST T w b ln buf)) = mem w"
    and "tight (mem w) (wbuf (step_writer (WriteS_TEST T w b ln buf)))"
    and "tight (mem w) (step_rest (WriteS_TEST T w b ln buf))"
    and "shown (mem w) (step_b (WriteS_TEST T w b ln buf))"
proof -
  have sb: "shown (mem w) buf" using assms(3) by (simp add: tight_def)
  note len = length_contents [OF sb] length_contents [OF assms(2)]
  show "step_view (WriteS_TEST T w b ln buf)
           = Write_TEST T (contents_view w) (contents (mem w) b) ln (contents (mem w) buf)"
  proof (cases "sl_len buf < ln")
    case True
    then show ?thesis
      by (simp add: WriteS_TEST_def Write_TEST_def len contents_view_def)
  next
    case False
    show ?thesis
    proof (cases "sl_len buf = ln")
      case True
      then show ?thesis
        using write_sl_view [of T w buf]
        by (cases "write_sl T w buf")
          (auto simp: WriteS_TEST_def Write_TEST_def len split: outcome.splits)
    next
      case ne: False
      with False have le: "ln \<le> sl_len buf" by simp
      show ?thesis
        using False ne write_sl_view [of T w "sl_upto buf ln"]
          contents_upto [OF sb le] contents_from [OF sb le]
        by (cases "write_sl T w (sl_upto buf ln)")
          (auto simp: WriteS_TEST_def Write_TEST_def len
            split: outcome.splits option.splits)
    qed
  qed
  show "mem (step_writer (WriteS_TEST T w b ln buf)) = mem w"
    using write_sl_view(2) [of T w buf] write_sl_view(2) [of T w "sl_upto buf ln"]
    by (auto simp: WriteS_TEST_def split: prod.splits outcome.splits option.splits)
  show "tight (mem w) (wbuf (step_writer (WriteS_TEST T w b ln buf)))"
    using assms(1,3) write_sl_view(3) [of T w buf] write_sl_view(3) [of T w "sl_upto buf ln"]
    by (auto simp: WriteS_TEST_def split: prod.splits outcome.splits option.splits)
  show "tight (mem w) (step_rest (WriteS_TEST T w b ln buf))"
    using assms(3) tight_from [of "mem w" buf ln]
    by (auto simp: WriteS_TEST_def tight_nil split: prod.splits outcome.splits option.splits)
  show "shown (mem w) (step_b (WriteS_TEST T w b ln buf))"
    using assms(2)
    by (auto simp: WriteS_TEST_def shown_nil split: prod.splits outcome.splits option.splits)
qed

lemma parse_view:
  assumes "tight (mem w) (wbuf w)" "tight (mem w) b" "sl_len b \<noteq> 0"
  shows "step_view (WriteS_parse T w b) = Write_parse T (contents_view w) (contents (mem w) b)"
    and "mem (step_writer (WriteS_parse T w b)) = mem w"
    and "tight (mem w) (wbuf (step_writer (WriteS_parse T w b)))"
    and "tight (mem w) (step_rest (WriteS_parse T w b))"
    and "shown (mem w) (step_b (WriteS_parse T w b))"
proof -
  have sb: "shown (mem w) b" using assms(2) by (simp add: tight_def)
  note len = length_contents [OF sb]
  show "step_view (WriteS_parse T w b) = Write_parse T (contents_view w) (contents (mem w) b)"
  proof (cases "sl_len b = 1")
    case True
    then show ?thesis
      by (simp add: WriteS_parse_def Write_parse_def len contents_view_def)
  next
    case False
    with assms(3) have le: "2 \<le> sl_len b" by simp
    from False show ?thesis
      using TEST_view(1) [OF assms(1) sb tight_from [OF assms(2) le]]
      by (simp add: WriteS_parse_def Write_parse_def len contents_from [OF sb le])
  qed
  show "mem (step_writer (WriteS_parse T w b)) = mem w"
    using TEST_view(2) [OF assms(1) sb tight_from [OF assms(2), of 2]] assms(3)
    by (cases "sl_len b = 1") (simp_all add: WriteS_parse_def)
  show "tight (mem w) (wbuf (step_writer (WriteS_parse T w b)))"
    using TEST_view(3) [OF assms(1) sb tight_from [OF assms(2), of 2]] assms(2,3)
    by (cases "sl_len b = 1") (simp_all add: WriteS_parse_def)
  show "tight (mem w) (step_rest (WriteS_parse T w b))"
    using TEST_view(4) [OF assms(1) sb tight_from [OF assms(2), of 2]] assms(3)
    by (cases "sl_len b = 1") (simp_all add: WriteS_parse_def tight_nil)
  show "shown (mem w) (step_b (WriteS_parse T w b))"
    using TEST_view(5) [OF assms(1) sb tight_from [OF assms(2), of 2]] assms(3) sb
    by (cases "sl_len b = 1") (simp_all add: WriteS_parse_def)
qed

lemma simulatedI:
  "step_view st = v \<Longrightarrow> mem (step_writer st) = h @ ext
   \<Longrightarrow> tight (h @ ext) (wbuf (step_writer st)) \<Longrightarrow> tight (h @ ext) (step_rest st)
   \<Longrightarrow> shown (h @ ext) (step_b st)
   \<Longrightarrow> simulated h st v"
  by (simp add: simulated_def)

lemma contents_empty: "shown h s \<Longrightarrow> contents h s = [] \<longleftrightarrow> sl_len s = 0"
  using length_contents [of h s] by auto

lemma contents_view_fields:
  "waitingMore_buf (contents_view w) = contents (mem w) (wbuf w)"
  "incompleteLen (contents_view w) = incompleteLen (conn w)"
  "waitingMore_remain (contents_view w) = waitingMore_remain (conn w)"
  by (simp_all add: contents_view_def)

lemma append_write_view:
  assumes "tight (mem w) (wbuf w)" "shown (mem w) t"
  obtains ext s where "append_sl (mem w) (wbuf w) t = (mem w @ ext, s)"
    and "tight (mem w @ ext) s"
    and "contents (mem w @ ext) s = contents (mem w) (wbuf w) @ contents (mem w) t"
    and "write_udp T (contents_view w) (contents (mem w) (wbuf w) @ contents (mem w) t)
           = (fst (write_sl T (w\<lparr>mem := mem w @ ext\<rparr>) s),
              contents_view (snd (write_sl T (w\<lparr>mem := mem w @ ext\<rparr>) s)))"
    and "mem (snd (write_sl T (w\<lparr>mem := mem w @ ext\<rparr>) s)) = mem w @ ext"
    and "wbuf (snd (write_sl T (w\<lparr>mem := mem w @ ext\<rparr>) s)) = wbuf w"
proof -
  from append_sl_tight [OF assms] obtain ext
    where e: "fst (append_sl (mem w) (wbuf w) t) = mem w @ ext"
      "contents (mem w @ ext) (snd (append_sl (mem w) (wbuf w) t))
         = contents (mem w) (wbuf w) @ contents (mem w) t"
      "tight (mem w @ ext) (snd (append_sl (mem w) (wbuf w) t))"
    by blast
  define s where "s = snd (append_sl (mem w) (wbuf w) t)"
  have sw: "shown (mem w) (wbuf w)" using assms(1) by (simp add: tight_def)
  have cv: "contents_view (w\<lparr>mem := mem w @ ext\<rparr>) = contents_view w"
    by (simp add: contents_view_def contents_ext [OF sw])
  show thesis
  proof (rule that [of ext s])
    show "append_sl (mem w) (wbuf w) t = (mem w @ ext, s)"
      using e(1) by (simp add: s_def prod_eq_iff)
    show "tight (mem w @ ext) s" using e(3) by (simp add: s_def)
    show "contents (mem w @ ext) s = contents (mem w) (wbuf w) @ contents (mem w) t"
      using e(2) by (simp add: s_def)
    then show "write_udp T (contents_view w) (contents (mem w) (wbuf w) @ contents (mem w) t)
           = (fst (write_sl T (w\<lparr>mem := mem w @ ext\<rparr>) s),
              contents_view (snd (write_sl T (w\<lparr>mem := mem w @ ext\<rparr>) s)))"
      using write_sl_view(1) [of T "w\<lparr>mem := mem w @ ext\<rparr>" s] by (simp add: cv)
    show "mem (snd (write_sl T (w\<lparr>mem := mem w @ ext\<rparr>) s)) = mem w @ ext"
      by (simp add: write_sl_view)
    show "wbuf (snd (write_sl T (w\<lparr>mem := mem w @ ext\<rparr>) s)) = wbuf w"
      by (simp add: write_sl_view)
  qed
qed

lemma pre_view:
  assumes tw: "tight (mem w) (wbuf w)" and tb: "tight (mem w) b"
  shows "simulated (mem w) (WriteS_pre T w b) (Write_pre T (contents_view w) (contents (mem w) b))"
proof -
  have sb: "shown (mem w) b" using tb by (simp add: tight_def)
  have sw: "shown (mem w) (wbuf w)" using tw by (simp add: tight_def)
  note len = length_contents [OF sb] length_contents [OF sw]
  note emp = contents_empty [OF sb] contents_empty [OF sw]
  consider (none) "sl_len b = 0"
    | (inc) "sl_len b \<noteq> 0" "incompleteLen (conn w)"
    | (rem) "sl_len b \<noteq> 0" "\<not> incompleteLen (conn w)" "0 < waitingMore_remain (conn w)"
    | (parse) "sl_len b \<noteq> 0" "\<not> incompleteLen (conn w)" "\<not> 0 < waitingMore_remain (conn w)"
    by auto
  then show ?thesis
  proof cases
    case none
    then show ?thesis
      using tw sb by (intro simulatedI [where ext = "[]"])
        (simp_all add: WriteS_pre_def Write_pre_def emp tight_nil)
  next
    case inc
    define w0 where "w0 = w\<lparr>conn := (conn w)\<lparr>incompleteLen := False\<rparr>\<rparr>"
    have cv0: "contents_view w0 = (contents_view w)\<lparr>incompleteLen := False\<rparr>"
      and m0: "mem w0 = mem w" and b0: "wbuf w0 = wbuf w"
      by (simp_all add: w0_def contents_view_def)
    show ?thesis
    proof (cases "sl_len (wbuf w) = 0")
      case True
      with inc tw show ?thesis
        by (intro simulatedI [where ext = "[]"])
          (simp_all add: WriteS_pre_def Write_pre_def emp contents_view_def tight_nil shown_nil)
    next
      case False
      from inc have le: "1 \<le> sl_len b" by simp
      have t1: "tight (mem w0) (sl_from b 1)" using tight_from [OF tb le] by (simp add: m0)
      have tw0: "tight (mem w0) (wbuf w0)" using tw by (simp add: m0 b0)
      have sb0: "shown (mem w0) b" using sb by (simp add: m0)
      have eq: "WriteS_pre T w b
          = WriteS_TEST T w0 b (Uint16 [contents (mem w) (wbuf w) ! 0, contents (mem w) b ! 0])
              (sl_from b 1)"
        using inc False by (simp add: WriteS_pre_def w0_def)
      have eqv: "Write_pre T (contents_view w) (contents (mem w) b)
          = Write_TEST T (contents_view w0) (contents (mem w) b)
              (Uint16 [contents (mem w) (wbuf w) ! 0, contents (mem w) b ! 0])
              (drop 1 (contents (mem w) b))"
        using inc False by (simp add: Write_pre_def Let_def emp cv0 contents_view_fields)
      show ?thesis
        unfolding eq eqv
        using TEST_view [OF tw0 sb0 t1, of T] contents_from [OF sb le]
        by (intro simulatedI [where ext = "[]"]) (simp_all add: m0)
    qed
  next
    case parse
    have eq: "WriteS_pre T w b = WriteS_parse T w b"
      using parse by (simp add: WriteS_pre_def)
    have eqv: "Write_pre T (contents_view w) (contents (mem w) b)
          = Write_parse T (contents_view w) (contents (mem w) b)"
      using parse by (simp add: Write_pre_def emp contents_view_fields)
    show ?thesis
      unfolding eq eqv
      using parse_view [OF tw tb parse(1), of T]
      by (intro simulatedI [where ext = "[]"]) simp_all
  next
    case rem
    define r where "r = waitingMore_remain (conn w)"
    define w1 where
      "w1 = w\<lparr>conn := (conn w)\<lparr>waitingMore_remain := r - int (sl_len b)\<rparr>\<rparr>"
    have cv1: "contents_view w1
        = (contents_view w)\<lparr>waitingMore_remain := r - int (sl_len b)\<rparr>"
      and m1: "mem w1 = mem w" and b1: "wbuf w1 = wbuf w"
      and r1: "waitingMore_remain (conn w1) = r - int (sl_len b)"
      by (simp_all add: w1_def contents_view_def)
    have tw1: "tight (mem w1) (wbuf w1)" using tw by (simp add: m1 b1)
    have pos: "0 < r" using rem by (simp add: r_def)
    consider (exact) "r - int (sl_len b) = 0" | (more) "0 < r - int (sl_len b)"
      | (over) "r - int (sl_len b) < 0"
      by linarith
    then show ?thesis
    proof cases
      case exact
      have sb1: "shown (mem w1) b" using sb by (simp add: m1)
      from append_write_view [OF tw1 sb1, of T] obtain ext s
        where a: "append_sl (mem w1) (wbuf w1) b = (mem w1 @ ext, s)"
          and wr: "write_udp T (contents_view w1) (contents (mem w1) (wbuf w1) @ contents (mem w1) b)
           = (fst (write_sl T (w1\<lparr>mem := mem w1 @ ext\<rparr>) s),
              contents_view (snd (write_sl T (w1\<lparr>mem := mem w1 @ ext\<rparr>) s)))"
          and m: "mem (snd (write_sl T (w1\<lparr>mem := mem w1 @ ext\<rparr>) s)) = mem w1 @ ext"
          and wb: "wbuf (snd (write_sl T (w1\<lparr>mem := mem w1 @ ext\<rparr>) s)) = wbuf w1"
        by metis
      define res where "res = write_sl T (w1\<lparr>mem := mem w1 @ ext\<rparr>) s"
      have eq: "WriteS_pre T w b
          = (case res of (Returns (n, err), w') \<Rightarrow> RetS n err w' b
             | (Panics p, w') \<Rightarrow> PanS p w')"
        using rem exact a
        by (simp add: WriteS_pre_def Let_def r_def w1_def res_def)
      have eqv: "Write_pre T (contents_view w) (contents (mem w) b)
          = (case (fst res, contents_view (snd res)) of
               (Returns (n, err), c') \<Rightarrow> Ret n err c' (contents (mem w) b)
             | (Panics p, c') \<Rightarrow> Pan p c')"
        using rem exact wr
        by (simp add: Write_pre_def Let_def emp len contents_view_fields r_def cv1 m1 b1
            res_def)
      have mr: "mem (snd res) = mem w @ ext" and wbr: "wbuf (snd res) = wbuf w"
        using m wb by (simp_all add: res_def m1 b1)
      show ?thesis
        unfolding eq eqv
        using mr wbr tight_ext [OF tw, of ext] contents_ext [OF sb, of ext]
          shown_ext [OF sb, of ext]
        by (intro simulatedI [where ext = ext]; cases res; cases "fst res")
          (auto simp: tight_nil shown_nil)
    next
      case more
      from append_sl_tight [OF tw sb] obtain ext
        where e: "fst (append_sl (mem w) (wbuf w) b) = mem w @ ext"
          "contents (mem w @ ext) (snd (append_sl (mem w) (wbuf w) b))
             = contents (mem w) (wbuf w) @ contents (mem w) b"
          "tight (mem w @ ext) (snd (append_sl (mem w) (wbuf w) b))"
        by blast
      define s where "s = snd (append_sl (mem w) (wbuf w) b)"
      have a: "append_sl (mem w) (wbuf w) b = (mem w @ ext, s)"
        using e(1) by (simp add: s_def prod_eq_iff)
      have eq: "WriteS_pre T w b
          = RetS (int (sl_len b)) None (w1\<lparr>mem := mem w @ ext, wbuf := s\<rparr>) b"
        using rem more a by (simp add: WriteS_pre_def Let_def r_def w1_def)
      have eqv: "Write_pre T (contents_view w) (contents (mem w) b)
          = Ret (int (sl_len b)) None
              ((contents_view w)\<lparr>waitingMore_remain := r - int (sl_len b),
                 waitingMore_buf := contents (mem w) (wbuf w) @ contents (mem w) b\<rparr>)
              (contents (mem w) b)"
        using rem more
        by (simp add: Write_pre_def Let_def emp len contents_view_fields r_def)
      show ?thesis
        unfolding eq eqv
        using e(2,3) contents_ext [OF sb, of ext] shown_ext [OF sb, of ext]
        by (intro simulatedI [where ext = ext])
          (simp_all add: s_def [symmetric] tight_nil contents_view_def w1_def)
    next
      case over
      then have lt: "nat r < sl_len b" and le: "nat r \<le> sl_len b" using pos by simp_all
      define t where "t = sl_upto b (nat r)"
      have st: "shown (mem w1) t" using shown_upto [OF sb le] by (simp add: t_def m1)
      have ct: "contents (mem w) t = take (nat r) (contents (mem w) b)"
        using contents_upto [OF sb le] by (simp add: t_def)
      from append_write_view [OF tw1 st, of T] obtain ext s
        where a: "append_sl (mem w1) (wbuf w1) t = (mem w1 @ ext, s)"
          and wr: "write_udp T (contents_view w1) (contents (mem w1) (wbuf w1) @ contents (mem w1) t)
           = (fst (write_sl T (w1\<lparr>mem := mem w1 @ ext\<rparr>) s),
              contents_view (snd (write_sl T (w1\<lparr>mem := mem w1 @ ext\<rparr>) s)))"
          and m: "mem (snd (write_sl T (w1\<lparr>mem := mem w1 @ ext\<rparr>) s)) = mem w1 @ ext"
          and wb: "wbuf (snd (write_sl T (w1\<lparr>mem := mem w1 @ ext\<rparr>) s)) = wbuf w1"
        by metis
      define res where "res = write_sl T (w1\<lparr>mem := mem w1 @ ext\<rparr>) s"
      define rest where "rest = sl_from b (nat r)"
      have mr: "mem (snd res) = mem w @ ext" and wbr: "wbuf (snd res) = wbuf w"
        using m wb by (simp_all add: res_def m1 b1)
      have eq: "WriteS_pre T w b
          = (case res of (Panics p, w') \<Rightarrow> PanS p w'
             | (Returns (n, Some e), w') \<Rightarrow> RetS n (Some e) w' b
             | (Returns (n, None), w') \<Rightarrow> WriteS_parse T w' rest)"
        using rem over a unfolding rest_def r_def w1_def res_def t_def
        by (simp add: WriteS_pre_def Let_def)
      have eqv: "Write_pre T (contents_view w) (contents (mem w) b)
          = (case (fst res, contents_view (snd res)) of
               (Panics p, c') \<Rightarrow> Pan p c'
             | (Returns (n, Some e), c') \<Rightarrow> Ret n (Some e) c' (contents (mem w) b)
             | (Returns (n, None), c') \<Rightarrow>
                 Write_parse T c' (drop (nat r) (contents (mem w) b)))"
        using rem over wr unfolding m1 b1 ct cv1 res_def r_def
        by (simp add: Write_pre_def Let_def emp len contents_view_fields)
      have tr: "tight (mem (snd res)) (wbuf (snd res))"
        using tight_ext [OF tw, of ext] by (simp add: mr wbr)
      have trest: "tight (mem (snd res)) rest"
        using tight_from [OF tight_ext [OF tb, of ext] le] by (simp add: mr rest_def)
      have nz: "sl_len rest \<noteq> 0" using lt by (simp add: rest_def sl_from_def)
      have crest: "contents (mem (snd res)) rest = drop (nat r) (contents (mem w) b)"
        using contents_from [OF shown_ext [OF sb, of ext] le] contents_ext [OF sb, of ext]
        by (simp add: mr rest_def)
      note pv = parse_view [OF tr trest nz, of T]
      show ?thesis
        unfolding eq eqv
        using mr wbr tight_ext [OF tw, of ext] contents_ext [OF sb, of ext] pv crest
          shown_ext [OF sb, of ext]
        by (intro simulatedI [where ext = ext]; cases res; cases "fst res")
          (auto simp: tight_nil shown_nil split: option.splits)
    qed
  qed
qed

lemma deferredS_view: "shown h bf \<Longrightarrow> deferred n err (contents h bf) = deferredS n err bf"
  by (simp add: deferred_def deferredS_def length_contents)

lemma take_prefix_trans:
  "take (length h) h' = h \<Longrightarrow> take (length h') h'' = h' \<Longrightarrow> take (length h) h'' = h"
  by (metis append_eq_conv_conj append_assoc append_take_drop_id)

lemma WriteS_view:
  "tight (mem w) (wbuf w) \<Longrightarrow> tight (mem w) b \<Longrightarrow>
   Write T (contents_view w) (contents (mem w) b)
     = (fst (WriteS T w b), contents_view (snd (WriteS T w b)))
   \<and> take (length (mem w)) (mem (snd (WriteS T w b))) = mem w
   \<and> tight (mem (snd (WriteS T w b))) (wbuf (snd (WriteS T w b)))"
proof (induction T w b rule: WriteS.induct)
  case (1 T w b)
  note sim = pre_view [OF "1.prems", of T, unfolded simulated_def]
  show ?case
  proof (cases "WriteS_pre T w b")
    case (RetS n err w' bf)
    with sim have v: "Write_pre T (contents_view w) (contents (mem w) b)
        = Ret n err (contents_view w') (contents (mem w') bf)"
      and pre: "take (length (mem w)) (mem w') = mem w"
      and t: "tight (mem w') (wbuf w')"
      and sh: "shown (mem w') bf"
      by simp_all
    have eq: "WriteS T w b = (Returns (deferredS n err bf), w')"
      using RetS by (subst WriteS.simps) simp
    have eqv: "Write T (contents_view w) (contents (mem w) b)
        = (Returns (deferredS n err bf), contents_view w')"
      using v by (subst Write.simps) (simp add: deferredS_view [OF sh])
    show ?thesis
      unfolding eq eqv using pre t by simp
  next
    case (PanS p w')
    with sim have v: "Write_pre T (contents_view w) (contents (mem w) b)
        = Pan p (contents_view w')"
      and pre: "take (length (mem w)) (mem w') = mem w"
      and t: "tight (mem w') (wbuf w')"
      by simp_all
    have eq: "WriteS T w b = (Panics p, w')"
      using PanS by (subst WriteS.simps) simp
    have eqv: "Write T (contents_view w) (contents (mem w) b) = (Panics p, contents_view w')"
      using v by (subst Write.simps) simp
    show ?thesis
      unfolding eq eqv using pre t by simp
  next
    case (RecS w' bf rest)
    with sim have v: "Write_pre T (contents_view w) (contents (mem w) b)
        = Rec (contents_view w') (contents (mem w') bf) (contents (mem w') rest)"
      and pre: "take (length (mem w)) (mem w') = mem w"
      and t: "tight (mem w') (wbuf w')" "tight (mem w') rest"
      and sh: "shown (mem w') bf"
      by simp_all
    from "1.IH" [OF RecS t]
    have ih: "Write T (contents_view w') (contents (mem w') rest)
        = (fst (WriteS T w' rest), contents_view (snd (WriteS T w' rest)))"
      "take (length (mem w')) (mem (snd (WriteS T w' rest))) = mem w'"
      "tight (mem (snd (WriteS T w' rest))) (wbuf (snd (WriteS T w' rest)))"
      by simp_all
    have eq: "WriteS T w b
        = (case WriteS T w' rest of
             (Returns (n, err), w'') \<Rightarrow> (Returns (deferredS n err bf), w'')
           | (Panics p, w'') \<Rightarrow> (Panics p, w''))"
      using RecS by (subst WriteS.simps) simp
    have eqv: "Write T (contents_view w) (contents (mem w) b)
        = (case (fst (WriteS T w' rest), contents_view (snd (WriteS T w' rest))) of
             (Returns (n, err), c'') \<Rightarrow> (Returns (deferredS n err bf), c'')
           | (Panics p, c'') \<Rightarrow> (Panics p, c''))"
      using v ih(1)
      by (subst Write.simps)
        (simp add: deferredS_view [OF sh] split: outcome.splits prod.splits)
    show ?thesis
      unfolding eq eqv
      using ih(2,3) take_prefix_trans [OF pre ih(2)]
      by (cases "WriteS T w' rest"; cases "fst (WriteS T w' rest)") auto
  qed
qed

lemma feedFresh_view:
  "tight (mem w) (wbuf w) \<Longrightarrow> contents_view (feedFresh T w ps) = feed T (contents_view w) ps"
proof (induction ps arbitrary: w)
  case Nil
  show ?case by simp
next
  case (Cons p ps)
  define h where "h = mem w @ [p]"
  define b where "b = \<lparr>sl_arr = length (mem w), sl_off = 0, sl_len = length p, sl_cap = length p\<rparr>"
  define w0 where "w0 = w\<lparr>mem := h\<rparr>"
  have sw: "shown (mem w) (wbuf w)" using Cons.prems by (simp add: tight_def)
  have tw: "tight (mem w0) (wbuf w0)"
    using tight_ext [OF Cons.prems, of "[p]"] by (simp add: w0_def h_def)
  have tb: "tight (mem w0) b"
    by (simp add: tight_def shown_def w0_def h_def b_def)
  have cb: "contents (mem w0) b = p"
    by (simp add: contents_def w0_def h_def b_def)
  have cv: "contents_view w0 = contents_view w"
    using contents_ext [OF sw, of "[p]"] by (simp add: contents_view_def w0_def h_def)
  from WriteS_view [OF tw tb, of T]
  have wr: "Write T (contents_view w) p = (fst (WriteS T w0 b), contents_view (snd (WriteS T w0 b)))"
    and t: "tight (mem (snd (WriteS T w0 b))) (wbuf (snd (WriteS T w0 b)))"
    by (simp_all add: cb cv)
  have "feedFresh T w (p # ps) = feedFresh T (snd (WriteS T w0 b)) ps"
    by (simp add: Let_def w0_def h_def b_def)
  then show ?case
    using Cons.IH [OF t] wr by simp
qed

text \<open>
  Hence a complete frame split into pieces in any way, each piece in a slice of its own,
  leaves the socket as one \<^verbatim>\<open>write\<close> of the payload does.
\<close>

lemma Write_reassembly_fresh_slices:
  assumes "\<not> incompleteLen (conn w)" "waitingMore_remain (conn w) \<le> 0"
    "tight (mem w) (wbuf w)"
    "length payload = Uint16 [hi, lo]" "concat ps = hi # lo # payload"
  shows "UDPConn (conn (feedFresh T w ps)) = UDPConn (snd (write_udp T (conn w) payload))"
proof -
  have "UDPConn (conn (feedFresh T w ps)) = UDPConn (contents_view (feedFresh T w ps))"
    by (simp add: contents_view_def)
  also have "\<dots> = UDPConn (feed T (contents_view w) ps)"
    by (simp add: feedFresh_view [OF assms(3)])
  also have "\<dots> = UDPConn (snd (write_udp T (contents_view w) payload))"
    using assms(1,2,4,5) by (intro feed_idle) (simp_all add: contents_view_fields)
  also have "\<dots> = UDPConn (snd (write_udp T (conn w) payload))"
    by (simp add: contents_view_def write_udp_buf)
  finally show ?thesis .
qed

lemma Write_reassembly_fresh_slices_example:
  "UDPConn (conn (feedFresh exampleTemplates
      (idleWriter ((newMember healthy None dst1234)\<lparr>socks := False\<rparr>) 4)
      [[0], [2], [65], [66]]))
     = healthy\<lparr>outbox := [(None, [65, 66])]\<rparr>"
  by code_simp

subsection \<open>A frame delivered through one buffer\<close>

text \<open>
  A second example: the frame with the payload "ABCD" delivered as \<open>[0, 4, 65]\<close> and
  \<open>[66, 67, 68]\<close> through a buffer of four bytes. The second piece overwrites the retained
  byte "A", and the datagram "DBCD" is sent.
\<close>

lemma reused_buffer_wrong_payload:
  "UDPConn (conn (feedReused exampleTemplates
      (idleWriter ((newMember healthy None dst1234)\<lparr>socks := False\<rparr>) 4)
      [[0, 4, 65], [66, 67, 68]]))
     = healthy\<lparr>outbox := [(None, [68, 66, 67, 68])]\<rparr>"
  by code_simp

text \<open>
  Claim C3 fails on the code. A caller that owns one buffer of four bytes delivers the
  frame \<open>[0, 2, 65, 66]\<close> (payload "AB") to a raw-mode connection in the idle state, on a
  socket whose sends succeed. Delivered in one piece, the datagram "AB" is sent. Delivered
  one byte at a time through the same buffer, nothing is sent: line 281 keeps a reference
  to the caller's byte instead of its value, the second call finds the second length byte
  in both places and reads the length \<open>0x0202\<close>, and the writer is left awaiting 512
  more bytes of payload.
\<close>

theorem Write_reused_buffer_loses_frame:
  "UDPConn (conn (feedReused exampleTemplates
      (idleWriter ((newMember healthy None dst1234)\<lparr>socks := False\<rparr>) 4)
      [[0, 2, 65, 66]]))
     = healthy\<lparr>outbox := [(None, [65, 66])]\<rparr>
   \<and> feedReused exampleTemplates
      (idleWriter ((newMember healthy None dst1234)\<lparr>socks := False\<rparr>) 4)
      [[0], [2], [65], [66]]
     = \<lparr>conn = (newMember healthy None dst1234)\<lparr>socks := False, waitingMore_remain := 512\<rparr>,
        wbuf = \<lparr>sl_arr = 0, sl_off = 1, sl_len = 2, sl_cap = 3\<rparr>,
        mem = [[66, 65, 66, 0]]\<rparr>
   \<and> UDPConn ((newMember healthy None dst1234)\<lparr>socks := False, waitingMore_remain := 512\<rparr>)
     = healthy"
  by code_simp

subsection \<open>A frame followed by the beginning of another\<close>

text \<open>
  Claim C4, as the code has it. In the idle state \<^verbatim>\<open>Write\<close> receives one complete frame
  (length bytes \<open>h1, l1\<close>, payload \<open>p1\<close>) followed by the first \<open>k\<close> bytes of a second
  frame (length bytes \<open>h2, l2\<close>, payload \<open>p2\<close>), \<open>0 < k < 2 + len(p2)\<close>, and the send of
  the first frame reports no error. When the prefix holds both length bytes (\<open>2 \<le> k\<close>),
  \<^verbatim>\<open>Write\<close> accepts the whole chunk, has called \<^verbatim>\<open>write\<close> exactly once, on \<open>p1\<close>, and
  leaves the writer awaiting payload: the buffered bytes are the \<open>k - 2\<close> payload bytes
  received, and the outstanding count is the declared length of the second frame minus
  \<open>k - 2\<close>, which is positive. When the prefix is the single byte \<open>h2\<close>, the writer is left
  awaiting the second length byte instead, with \<open>h2\<close> buffered.
\<close>

theorem Write_frame_and_partial:
  assumes idle: "\<not> incompleteLen c" "waitingMore_remain c \<le> 0"
    and f1: "length p1 = Uint16 [h1, l1]"
    and f2: "length p2 = Uint16 [h2, l2]"
    and k: "0 < k" "k < 2 + length p2"
    and ok: "fst (write_udp T c p1) = Returns (n, None)"
  shows "(2 \<le> k \<longrightarrow>
           Write T c (h1 # l1 # p1 @ take k (h2 # l2 # p2))
             = (Returns (int (2 + length p1 + k), None),
                (snd (write_udp T c p1))
                  \<lparr>waitingMore_buf := take (k - 2) p2,
                   waitingMore_remain := int (length p2) - int (k - 2)\<rparr>)
           \<and> \<not> incompleteLen (snd (Write T c (h1 # l1 # p1 @ take k (h2 # l2 # p2))))
           \<and> 0 < waitingMore_remain (snd (Write T c (h1 # l1 # p1 @ take k (h2 # l2 # p2)))))
       \<and> (k = 1 \<longrightarrow>
           Write T c (h1 # l1 # p1 @ take k (h2 # l2 # p2))
             = (Returns (int (2 + length p1 + k), None),
                (snd (write_udp T c p1))\<lparr>waitingMore_buf := [h2], incompleteLen := True\<rparr>))"
proof -
  define pre where "pre = take k (h2 # l2 # p2)"
  define chunk where "chunk = h1 # l1 # p1 @ pre"
  obtain c' where wr: "write_udp T c p1 = (Returns (n, None), c')"
    using ok by (cases "write_udp T c p1") simp
  have c': "snd (write_udp T c p1) = c'" by (simp add: wr)
  have pre_ne: "pre \<noteq> []" using k by (cases k) (simp_all add: pre_def)
  have idle': "\<not> incompleteLen c'" "\<not> 0 < waitingMore_remain c'"
    using idle write_udp_fields(1,2) [of T c p1] unfolding c' by simp_all
  have "Write_pre T c chunk = Write_TEST T c chunk (Uint16 [h1, l1]) (p1 @ pre)"
    using idle by (simp add: chunk_def Write_pre_def Write_parse_def Uint16_def)
  also have "\<dots> = Rec c' chunk pre"
    using pre_ne f1 [symmetric] wr by (simp add: Write_TEST_def)
  finally have outer: "Write T c chunk =
      (case Write T c' pre of
         (Returns (n, err), c'') \<Rightarrow> (Returns (deferred n err chunk), c'')
       | (Panics p, c'') \<Rightarrow> (Panics p, c''))"
    by (rule Write_Rec)
  have len: "length chunk = 2 + length p1 + k" using k by (simp add: chunk_def pre_def)
  have goal2: "Write T c chunk = (Returns (int (2 + length p1 + k), None),
        c'\<lparr>waitingMore_buf := take (k - 2) p2,
             waitingMore_remain := int (length p2) - int (k - 2)\<rparr>)" if k2: "2 \<le> k"
  proof -
    obtain j where j: "k = Suc (Suc j)" using k2 by (metis add_2_eq_Suc le_Suc_ex)
    have pre: "pre = h2 # l2 # take j p2" by (simp add: pre_def j)
    have lj: "j < length p2" using k j by simp
    have "Write_pre T c' pre = Write_TEST T c' pre (Uint16 [h2, l2]) (take j p2)"
      using idle' by (simp add: pre Write_pre_def Write_parse_def Uint16_def)
    also have "\<dots> = Ret (int (length pre)) None
        (c'\<lparr>waitingMore_buf := take j p2, waitingMore_remain := int (length p2) - int j\<rparr>) pre"
      using lj f2 [symmetric] by (simp add: Write_TEST_def min_def)
    finally have "Write T c' pre = (Returns (int (length pre), None),
        c'\<lparr>waitingMore_buf := take j p2, waitingMore_remain := int (length p2) - int j\<rparr>)"
      by (simp add: Write_Ret deferred_def)
    then show ?thesis
      unfolding outer using len by (simp add: deferred_def j)
  qed
  have goal1: "Write T c chunk = (Returns (int (2 + length p1 + k), None),
        c'\<lparr>waitingMore_buf := [h2], incompleteLen := True\<rparr>)" if k1: "k = 1"
  proof -
    have pre: "pre = [h2]" by (simp add: pre_def k1)
    have "Write_pre T c' pre
        = Ret 1 None (c'\<lparr>waitingMore_buf := [h2], incompleteLen := True\<rparr>) pre"
      using idle' by (simp add: pre Write_pre_def Write_parse_def)
    then have "Write T c' pre = (Returns (1, None),
        c'\<lparr>waitingMore_buf := [h2], incompleteLen := True\<rparr>)"
      by (simp add: Write_Ret deferred_def pre)
    then show ?thesis
      unfolding outer using len by (simp add: deferred_def)
  qed
  have pos: "0 < int (length p2) - int (k - 2)" if "2 \<le> k" using k that by linarith
  show ?thesis
    unfolding c' chunk_def [symmetric] pre_def [symmetric]
    using goal1 goal2 idle' pos by simp
qed

lemma write_raw_example:
  "write_udp exampleTemplates ((newMember healthy None dst1234)\<lparr>socks := False\<rparr>) [65]
     = (Returns (3, None),
        (newMember healthy None dst1234)
          \<lparr>socks := False, UDPConn := healthy\<lparr>outbox := [(None, [65])]\<rparr>\<rparr>)"
  by (simp add: write_udp_def send_def newMember_def healthy_def)

text \<open>
  The theorem at the frame "A" followed by the first three bytes of the frame "BC", and
  followed by the first byte only, on a raw-mode connection.
\<close>

theorem Write_frame_and_partial_witness:
  "Write exampleTemplates ((newMember healthy None dst1234)\<lparr>socks := False\<rparr>)
       ([0, 1, 65] @ take 3 [0, 2, 66, 67])
     = (Returns (6, None),
        (newMember healthy None dst1234)
          \<lparr>socks := False, UDPConn := healthy\<lparr>outbox := [(None, [65])]\<rparr>,
           waitingMore_buf := [66], waitingMore_remain := 1\<rparr>)
   \<and> Write exampleTemplates ((newMember healthy None dst1234)\<lparr>socks := False\<rparr>)
       ([0, 1, 65] @ take 1 [0, 2, 66, 67])
     = (Returns (4, None),
        (newMember healthy None dst1234)
          \<lparr>socks := False, UDPConn := healthy\<lparr>outbox := [(None, [65])]\<rparr>,
           waitingMore_buf := [0], incompleteLen := True\<rparr>)"
  using Write_frame_and_partial
      [where c = "(newMember healthy None dst1234)\<lparr>socks := False\<rparr>" and T = exampleTemplates
         and ?p1.0 = "[65]" and ?h1.0 = 0 and ?l1.0 = 1 and ?p2.0 = "[66, 67]" and ?h2.0 = 0
         and ?l2.0 = 2 and k = 3 and n = 3]
    Write_frame_and_partial
      [where c = "(newMember healthy None dst1234)\<lparr>socks := False\<rparr>" and T = exampleTemplates
         and ?p1.0 = "[65]" and ?h1.0 = 0 and ?l1.0 = 1 and ?p2.0 = "[66, 67]" and ?h2.0 = 0
         and ?l2.0 = 2 and k = 1 and n = 3]
  by (simp add: write_raw_example Uint16_def) (simp add: newMember_def)

text \<open>
  Claim C4 as the specification words it covers every proper non-empty prefix of the second
  frame. After the frame "A" and one byte of the frame "B" the writer is not awaiting
  payload with one byte outstanding: it awaits the second length byte, and the counter
  is 0.
\<close>

theorem Write_frame_and_one_byte:
  "incompleteLen (snd (Write exampleTemplates ((newMember healthy None dst1234)\<lparr>socks := False\<rparr>)
                         ([0, 1, 65] @ take 1 [0, 1, 66])))
   \<and> waitingMore_remain
        (snd (Write exampleTemplates ((newMember healthy None dst1234)\<lparr>socks := False\<rparr>)
                ([0, 1, 65] @ take 1 [0, 1, 66]))) = 0
   \<and> int (Uint16 [0, 1]) - 0 = 1"
proof -
  have "Write_pre exampleTemplates ((newMember healthy None dst1234)\<lparr>socks := False\<rparr>)
          [0, 1, 65, 0]
      = Rec ((newMember healthy None dst1234)
               \<lparr>socks := False, UDPConn := healthy\<lparr>outbox := [(None, [65])]\<rparr>\<rparr>)
          [0, 1, 65, 0] [0]"
    by (simp add: Write_pre_def Write_parse_def Write_TEST_def Uint16_def write_raw_example)
      (simp add: newMember_def)
  moreover have "Write exampleTemplates
        ((newMember healthy None dst1234)
           \<lparr>socks := False, UDPConn := healthy\<lparr>outbox := [(None, [65])]\<rparr>\<rparr>) [0]
      = (Returns (1, None),
         (newMember healthy None dst1234)
           \<lparr>socks := False, UDPConn := healthy\<lparr>outbox := [(None, [65])]\<rparr>,
            waitingMore_buf := [0], incompleteLen := True\<rparr>)"
    by (subst Write.simps)
      (simp add: Write_pre_def Write_parse_def deferred_def newMember_def)
  ultimately have "Write exampleTemplates ((newMember healthy None dst1234)\<lparr>socks := False\<rparr>)
          [0, 1, 65, 0]
      = (Returns (4, None),
         (newMember healthy None dst1234)
           \<lparr>socks := False, UDPConn := healthy\<lparr>outbox := [(None, [65])]\<rparr>,
            waitingMore_buf := [0], incompleteLen := True\<rparr>)"
    by (simp add: Write_Rec deferred_def)
  then show ?thesis by (simp add: newMember_def Uint16_def)
qed

subsection \<open>The byte count that Write reports\<close>

lemmas Write_defs =
  Write_pre_def Write_parse_def Write_TEST_def write_udp_def send_def deferred_def Uint16_def
  Let_def

lemma raw_first_chunk:
  "Write T ((newMember healthy None d)\<lparr>socks := False\<rparr>) [0, 2, 65]
     = (Returns (3, None),
        (newMember healthy None d)
          \<lparr>socks := False, waitingMore_buf := [65], waitingMore_remain := 1\<rparr>)"
  by (subst Write.simps) (simp add: Write_defs newMember_def healthy_def)

lemma raw_second_chunk:
  "Write T ((newMember healthy None d)
              \<lparr>socks := False, waitingMore_buf := [65], waitingMore_remain := 1\<rparr>)
       [66, 0, 1, 67]
     = (Returns (3, None),
        (newMember healthy None d)
          \<lparr>socks := False, waitingMore_buf := [65], waitingMore_remain := - 3,
           UDPConn := healthy\<lparr>outbox := [(None, [65, 66]), (None, [67])]\<rparr>\<rparr>)"
  by (subst Write.simps) (simp add: Write_defs newMember_def healthy_def)

text \<open>
  The value of \<^verbatim>\<open>b\<close> that the deferred function reads, and with it the count of every
  call that reports no error: it is short exactly on the surplus path of lines 270-276.
\<close>

lemma Write_TEST_bf:
  "Write_TEST T c b ln buf = Ret n err c' bf \<Longrightarrow> bf = b"
  "Write_TEST T c b ln buf = Rec c' bf rest \<Longrightarrow> bf = b"
  by (auto simp: Write_TEST_def split: if_splits prod.splits outcome.splits option.splits)

lemma Write_parse_bf:
  "Write_parse T c b = Ret n err c' bf \<Longrightarrow> bf = b"
  "Write_parse T c b = Rec c' bf rest \<Longrightarrow> bf = b"
  by (auto simp: Write_parse_def dest: Write_TEST_bf split: if_splits)

lemma Write_pre_bf:
  assumes "Write_pre T c b = Ret n None c' bf \<or> Write_pre T c b = Rec c' bf rest"
  shows "bf = (if \<not> incompleteLen c \<and> 0 < waitingMore_remain c
                 \<and> waitingMore_remain c < int (length b)
               then drop (nat (waitingMore_remain c)) b else b)"
  using assms
  by (auto simp: Write_pre_def Let_def dest: Write_TEST_bf Write_parse_bf
      split: if_splits prod.splits outcome.splits option.splits)

lemma Write_count:
  assumes "Write T c b = (Returns (n, None), c')"
  shows "n = (if \<not> incompleteLen c \<and> 0 < waitingMore_remain c
                 \<and> waitingMore_remain c < int (length b)
              then int (length b) - waitingMore_remain c else int (length b))"
proof (cases "Write_pre T c b")
  case (Ret n0 err c0 bf)
  with assms have e: "err = None" "n = int (length bf)"
    by (auto simp: Write_Ret deferred_def split: if_splits)
  with Ret Write_pre_bf [of T c b n0 c0 bf] show ?thesis by (auto split: if_splits)
next
  case (Rec c0 bf rest)
  with assms have "n = int (length bf)"
    by (auto simp: Write_Rec deferred_def split: if_splits prod.splits outcome.splits)
  with Rec Write_pre_bf [of T c b _ c0 bf rest] show ?thesis by (auto split: if_splits)
next
  case (Pan p c0)
  with assms show ?thesis by (simp add: Write_Pan)
qed

text \<open>
  Claim C2 fails on the code. A raw-mode connection on a socket whose sends succeed takes
  the chunk \<open>[0, 2, 65]\<close> (a frame of two bytes, one of them still missing) and then the
  chunk \<open>[66, 0, 1, 67]\<close> of four bytes (the missing byte and a complete frame of one
  byte). Both frames are sent and no error is reported, but the second call returns 3:
  line 275 has replaced \<^verbatim>\<open>b\<close> by \<^verbatim>\<open>b[remain:]\<close>, and the deferred function reads the
  length of that. Lemma \<open>Write_count\<close> gives the count of every call without error.
\<close>

theorem Write_reports_short_count:
  "Write T (snd (Write T ((newMember healthy None d)\<lparr>socks := False\<rparr>) [0, 2, 65]))
       [66, 0, 1, 67]
     = (Returns (3, None),
        (newMember healthy None d)
          \<lparr>socks := False, waitingMore_buf := [65], waitingMore_remain := - 3,
           UDPConn := healthy\<lparr>outbox := [(None, [65, 66]), (None, [67])]\<rparr>\<rparr>)
   \<and> length [66, 0, 1, 67 :: byte] = 4"
  by (simp add: raw_first_chunk raw_second_chunk)

lemma early_first_chunk:
  "Write T (newMember healthy None d) [0, 2, 65]
     = (Returns (3, None),
        (newMember healthy None d)\<lparr>waitingMore_buf := [65], waitingMore_remain := 1\<rparr>)"
  by (subst Write.simps) (simp add: Write_defs newMember_def healthy_def)

lemma early_second_chunk:
  "Write T ((newMember healthy None d)\<lparr>waitingMore_buf := [65], waitingMore_remain := 1\<rparr>)
       [66, 0, 1, 67]
     = (Returns (3, None),
        (newMember healthy None d)\<lparr>waitingMore_buf := [65], waitingMore_remain := - 3\<rparr>)"
  by (subst Write.simps) (simp add: Write_defs newMember_def healthy_def)

text \<open>
  Claim C10 holds for \<^verbatim>\<open>write\<close> itself (lemma \<open>write_udp_no_peer\<close>: in SOCKS mode
  without a learned peer nothing is sent and no error is returned), and fails in its last
  part on the code. A pool member without a peer takes the chunk \<open>[0, 2, 65]\<close> and then
  the four bytes \<open>[66, 0, 1, 67]\<close>: both frames are dropped, the socket is untouched and no
  error is reported, but the second call returns 3, not 4.
\<close>

theorem Write_before_peer_reports_short_count:
  "write_udp T (newMember healthy None d) [65, 66] = (Returns (0, None), newMember healthy None d)
   \<and> Write T (snd (Write T (newMember healthy None d) [0, 2, 65])) [66, 0, 1, 67]
     = (Returns (3, None),
        (newMember healthy None d)\<lparr>waitingMore_buf := [65], waitingMore_remain := - 3\<rparr>)
   \<and> UDPConn ((newMember healthy None d)\<lparr>waitingMore_buf := [65], waitingMore_remain := - 3\<rparr>)
     = healthy
   \<and> length [66, 0, 1, 67 :: byte] = 4"
proof -
  have "write_udp T (newMember healthy None d) [65, 66]
      = (Returns (0, None), newMember healthy None d)"
    by (rule write_udp_no_peer) (simp_all add: newMember_def)
  moreover have "UDPConn ((newMember healthy None d)
      \<lparr>waitingMore_buf := [65], waitingMore_remain := - 3\<rparr>) = healthy"
    by (simp add: newMember_def)
  ultimately show ?thesis
    by (simp add: early_first_chunk early_second_chunk)
qed

subsection \<open>The header that write builds\<close>

lemma parse_long_domain:
  "parseUDPHeader None (Some ([0, 0, 0, 3, 250] @ replicate 250 97 @ [0, 53])) True
     = (Returns (0, Some \<lparr>ip = None, host = replicate 250 97, port = 53, size_hdr = 257\<rparr>, None),
        None)"
  by (simp add: parseUDPHeader_def parseFrom_def addrSize_def extractAddr_def socks_consts
      slice_def Uint16_def)

lemma write_long_domain:
  "write_udp T (newMember s (Some p)
                  \<lparr>ip = None, host = replicate 250 97, port = 53, size_hdr = 257\<rparr>) b
     = (Panics IndexOutOfRange,
        newMember s (Some p) \<lparr>ip = None, host = replicate 250 97, port = 53, size_hdr = 257\<rparr>)"
  by (simp add: write_udp_def newMember_def socksWrap_def Let_def length_copy_at)

lemma Uint16_PutUint16_exact: "v < 65536 \<Longrightarrow> Uint16 (PutUint16 v) = v"
  using Uint16_PutUint16 [of v "[]"] by simp

text \<open>What a successful parse without a connection returns.\<close>

lemma parse_shape:
  assumes "parseUDPHeader None (Some buf) True = (Returns (m, Some d, None), None)"
  shows "port d < 65536 \<and>
     ((\<exists>i. ip d = Some i \<and> length i = 4 \<and> host d = [] \<and> size_hdr d = 10)
    \<or> (\<exists>i. ip d = Some i \<and> length i = 16 \<and> host d = [] \<and> size_hdr d = 22)
    \<or> (ip d = None \<and> length (host d) \<le> 255 \<and> size_hdr d = 7 + length (host d)))"
proof -
  have u: "Uint16 xs < 65536" for xs
  proof -
    have "unat (xs ! 0) < 256" "unat (xs ! 1) < 256"
      using unsigned_less [of "xs ! 0"] unsigned_less [of "xs ! 1"] by simp_all
    then show ?thesis by (simp add: Uint16_def)
  qed
  have b: "unat (x :: byte) \<le> 255" for x
    using unsigned_less [of x, where ?'a = nat] by simp
  show ?thesis
    using assms u b [of "buf ! 4"]
    by (auto simp: parseUDPHeader_def parseFrom_def addrSize_def extractAddr_def Let_def
        socks_consts slice_def
        split: if_splits outcome.splits option.splits sum.splits prod.splits)
qed

lemma wrap_fixed:
  assumes t: "length t = ln" "4 \<le> k" "k + 2 = ln" "ln \<le> 256" and i: "length i = k - 4"
  shows "copy_at (copy_at (copy_range (copy_bytes (replicate (length b + 256) 0) t) 4 k i) k
                    (PutUint16 p)) ln b
       = take 4 t @ i @ PutUint16 p @ b @ replicate (256 - ln) 0"
proof -
  let ?z = "replicate (length b + (256 - ln)) (0 :: byte)"
  have x1: "copy_bytes (replicate (length b + 256) 0) t = t @ ?z"
    using t by (simp add: copy_bytes_def)
  have x2: "copy_range (t @ ?z) 4 k i = take 4 t @ i @ drop k t @ ?z"
    using t i by (simp add: copy_range_def copy_bytes_def slice_def)
  have x3: "copy_at (take 4 t @ i @ drop k t @ ?z) k (PutUint16 p)
      = take 4 t @ i @ PutUint16 p @ ?z"
    using t i by (simp add: copy_at_def copy_bytes_def length_PutUint16)
  have x4: "copy_at (take 4 t @ i @ PutUint16 p @ ?z) ln b
      = take 4 t @ i @ PutUint16 p @ b @ replicate (256 - ln) 0"
    using t i by (simp add: copy_at_def copy_bytes_def length_PutUint16 replicate_add [symmetric])
  show ?thesis by (simp only: x1 x2 x3 x4)
qed

lemma length_copy_range:
  "lo \<le> hi \<Longrightarrow> hi \<le> length x \<Longrightarrow> length (copy_range x lo hi y) = length x"
  by (simp add: copy_range_def length_copy_bytes slice_def)

lemma socksWrap_IPv4:
  assumes "host d = []" "ip d = Some i" "length i = 4" "length (udpHeaderIPv4 T) = 10"
  shows "socksWrap T d b
     = Returns (take 4 (udpHeaderIPv4 T) @ i @ PutUint16 (port d) @ b @ replicate 246 0, 10)"
  using assms wrap_fixed [of "udpHeaderIPv4 T" 10 8 i b "port d"]
  by (simp add: socksWrap_def Let_def IPv4len_def length_copy_at length_copy_range
      length_copy_bytes)

lemma socksWrap_IPv6:
  assumes "host d = []" "ip d = Some i" "length i = 16" "length (udpHeaderIPv6 T) = 22"
  shows "socksWrap T d b
     = Returns (take 4 (udpHeaderIPv6 T) @ i @ PutUint16 (port d) @ b @ replicate 234 0, 22)"
  using assms wrap_fixed [of "udpHeaderIPv6 T" 22 20 i b "port d"]
  by (simp add: socksWrap_def Let_def IPv4len_def length_copy_at length_copy_range
      length_copy_bytes)

lemma wrap_domain:
  assumes "length P = 5" "length h \<le> 249"
  shows "copy_at (copy_at (copy_at (P @ replicate (length b + 251) 0) 5 h) (5 + length h)
                    (PutUint16 p)) (5 + length h + 2) b
       = P @ h @ PutUint16 p @ b @ replicate (249 - length h) 0"
proof -
  let ?hl = "length h"
  let ?z = "replicate (length b + (251 - ?hl)) (0 :: byte)"
  have "replicate (length b + 251) (0 :: byte) = replicate ?hl 0 @ ?z"
    using assms(2) by (simp add: replicate_add [symmetric])
  then have x3: "copy_at (P @ replicate (length b + 251) 0) 5 h = P @ h @ ?z"
    using assms by (simp add: copy_at_def copy_bytes_def)
  have "?z = replicate 2 0 @ replicate (length b + (249 - ?hl)) 0"
    using assms(2) by (simp add: replicate_add [symmetric] del: replicate_Suc replicate.simps)
  then have x4: "copy_at (P @ h @ ?z) (5 + ?hl) (PutUint16 p)
      = P @ h @ PutUint16 p @ replicate (length b + (249 - ?hl)) 0"
    using assms by (simp add: copy_at_def copy_bytes_def length_PutUint16)
  have x5: "copy_at (P @ h @ PutUint16 p @ replicate (length b + (249 - ?hl)) 0) (5 + ?hl + 2) b
      = P @ h @ PutUint16 p @ b @ replicate (249 - ?hl) 0"
    using assms by (simp add: copy_at_def copy_bytes_def length_PutUint16 replicate_add [symmetric])
  show ?thesis by (simp only: x3 x4 x5)
qed

lemma socksWrap_domain:
  assumes "host d \<noteq> []" "length (host d) \<le> 249"
  shows "socksWrap T d b
     = Returns ([0, 0, 0, 3, of_nat (length (host d))] @ host d @ PutUint16 (port d) @ b
                  @ replicate (249 - length (host d)) 0,
                7 + length (host d))"
proof -
  let ?hl = "length (host d)"
  have "replicate (length b + 256) (0 :: byte) = [0, 0, 0, 0, 0] @ replicate (length b + 251) 0"
    by (simp add: replicate_add [symmetric] numeral_eq_Suc)
  then have x2: "(replicate (length b + 256) (0 :: byte))[3 := 3, 4 := of_nat ?hl]
      = [0, 0, 0, 3, of_nat ?hl] @ replicate (length b + 251) 0"
    by simp
  have len: "\<not> length (copy_at ([0, 0, 0, 3, of_nat ?hl] @ replicate (length b + 251) 0) 5 (host d))
      < 5 + ?hl + 2"
    using assms(2) by (simp add: length_copy_at)
  have "5 + ?hl + 2 = 7 + ?hl" by simp
  then show ?thesis
    using assms(1) len
      wrap_domain [of "[0, 0, 0, 3, of_nat ?hl]" "host d" b "port d"] assms(2)
    unfolding socksWrap_def Let_def x2
    by (simp del: append.simps copy_at_def)
qed

lemma parse_ip_datagram:
  assumes P: "length P = 4" and i: "length i = k" and p: "p < 65536"
    and ty: "P ! 3 = socksAddrIPv4 \<and> k = 4 \<and> sz = 10 \<or> P ! 3 = socksAddrIPv6 \<and> k = 16 \<and> sz = 22"
  shows "parseUDPHeader None (Some (P @ i @ PutUint16 p @ b)) True
     = (Returns ((P @ i) ! 1, Some \<lparr>ip = Some i, host = [], port = p, size_hdr = sz\<rparr>, None), None)"
proof -
  let ?dg = "P @ i @ PutUint16 p @ b"
  have sz: "addrSize ?dg = Returns (Inr sz)"
    using P ty by (auto simp: addrSize_def nth_append socks_consts)
  have len: "sz \<le> length ?dg" using P i ty by (auto simp: length_PutUint16)
  have raw: "drop 1 (slice ?dg 3 (sz - 2)) = i"
    using P i ty by (auto simp: slice_def)
  have prt: "Uint16 (slice ?dg (sz - 2) sz) = p"
    using P i ty p by (auto simp: slice_def length_PutUint16 Uint16_PutUint16_exact)
  have n1: "?dg ! 1 = (P @ i) ! 1" "?dg ! 3 = P ! 3" using P by (simp_all add: nth_append)
  show ?thesis
    using sz len raw prt n1 ty
    by (auto simp: parseUDPHeader_def parseFrom_def extractAddr_def Let_def socks_consts)
qed

lemma parse_domain_datagram:
  assumes P: "length P = 5" "P ! 3 = socksAddrDomain" "P ! 4 = of_nat (length h)"
    and h: "length h \<le> 255" and p: "p < 65536"
  shows "parseUDPHeader None (Some (P @ h @ PutUint16 p @ b)) True
     = (Returns (P ! 1, Some \<lparr>ip = None, host = h, port = p, size_hdr = 7 + length h\<rparr>, None),
        None)"
proof -
  let ?dg = "P @ h @ PutUint16 p @ b"
  have hl: "unat (of_nat (length h) :: byte) = length h"
    using h by (simp add: unat_of_nat)
  have sz: "addrSize ?dg = Returns (Inr (7 + length h))"
    using P hl by (simp add: addrSize_def nth_append socks_consts)
  have len: "7 + length h \<le> length ?dg" using P by (simp add: length_PutUint16)
  have raw: "drop 2 (slice ?dg 3 (7 + length h - 2)) = h"
    using P by (simp add: slice_def)
  have prt: "Uint16 (slice ?dg (7 + length h - 2) (7 + length h)) = p"
    using P p by (simp add: slice_def length_PutUint16 Uint16_PutUint16_exact)
  have n1: "?dg ! 1 = P ! 1" "?dg ! 3 = P ! 3" using P by (simp_all add: nth_append)
  show ?thesis
    using sz len raw prt n1 P(2)
    by (simp add: parseUDPHeader_def parseFrom_def extractAddr_def Let_def socks_consts)
qed

text \<open>
  For a destination that the parser has returned, with an address or a name of at most
  249 bytes, and templates of the right shape, the header that \<^verbatim>\<open>write\<close> builds parses
  back to the same destination, and the payload follows it.
\<close>

lemma write_round_trip:
  assumes tmpl: "length (udpHeaderIPv4 T) = 10" "udpHeaderIPv4 T ! 3 = socksAddrIPv4"
      "length (udpHeaderIPv6 T) = 22" "udpHeaderIPv6 T ! 3 = socksAddrIPv6"
    and orig: "parseUDPHeader None (Some buf) True = (Returns (m, Some d, None), None)"
    and pop: "ip d \<noteq> None \<or> host d \<noteq> []"
    and short: "length (host d) \<le> 249"
  shows "\<exists>xbuf m'. socksWrap T d b = Returns (xbuf, size_hdr d)
           \<and> size_hdr d + length b \<le> length xbuf
           \<and> parseUDPHeader None (Some (take (size_hdr d + length b) xbuf)) True
               = (Returns (m', Some d, None), None)
           \<and> drop (size_hdr d) (take (size_hdr d + length b) xbuf) = b"
proof -
  from parse_shape [OF orig] have p: "port d < 65536"
    and sh: "(\<exists>i. ip d = Some i \<and> length i = 4 \<and> host d = [] \<and> size_hdr d = 10)
    \<or> (\<exists>i. ip d = Some i \<and> length i = 16 \<and> host d = [] \<and> size_hdr d = 22)
    \<or> (ip d = None \<and> length (host d) \<le> 255 \<and> size_hdr d = 7 + length (host d))"
    by simp_all
  from sh consider
      (v4) i where "ip d = Some i" "length i = 4" "host d = []" "size_hdr d = 10"
    | (v6) i where "ip d = Some i" "length i = 16" "host d = []" "size_hdr d = 22"
    | (dom) "ip d = None" "size_hdr d = 7 + length (host d)"
    by auto
  then show ?thesis
  proof cases
    case v4
    let ?P = "take 4 (udpHeaderIPv4 T)"
    have d: "d = \<lparr>ip = Some i, host = [], port = port d, size_hdr = 10\<rparr>"
      using v4 by simp
    have P: "length ?P = 4" "?P ! 3 = socksAddrIPv4" using tmpl by simp_all
    have "parseUDPHeader None (Some (?P @ i @ PutUint16 (port d) @ b)) True
       = (Returns ((?P @ i) ! 1, Some d, None), None)"
      using parse_ip_datagram [of ?P i 4 "port d" 10 b] P v4(2) p d by simp
    then show ?thesis
      using socksWrap_IPv4 [OF v4(3,1,2) tmpl(1), of b] v4 P
      by (simp add: length_PutUint16)
  next
    case v6
    let ?P = "take 4 (udpHeaderIPv6 T)"
    have d: "d = \<lparr>ip = Some i, host = [], port = port d, size_hdr = 22\<rparr>"
      using v6 by simp
    have P: "length ?P = 4" "?P ! 3 = socksAddrIPv6" using tmpl by simp_all
    have "parseUDPHeader None (Some (?P @ i @ PutUint16 (port d) @ b)) True
       = (Returns ((?P @ i) ! 1, Some d, None), None)"
      using parse_ip_datagram [of ?P i 16 "port d" 22 b] P v6(2) p d by simp
    then show ?thesis
      using socksWrap_IPv6 [OF v6(3,1,2) tmpl(3), of b] v6 P
      by (simp add: length_PutUint16)
  next
    case dom
    define P :: "byte list" where "P = [0, 0, 0, 3, of_nat (length (host d))]"
    have P: "length P = 5" "P ! 3 = socksAddrDomain" "P ! 4 = of_nat (length (host d))"
      by (simp_all add: P_def socks_consts)
    have ne: "host d \<noteq> []" using pop dom by simp
    have d: "d = \<lparr>ip = None, host = host d, port = port d, size_hdr = 7 + length (host d)\<rparr>"
      using dom by simp
    have "parseUDPHeader None (Some (P @ host d @ PutUint16 (port d) @ b)) True
       = (Returns (P ! 1, Some \<lparr>ip = None, host = host d, port = port d,
                                size_hdr = 7 + length (host d)\<rparr>, None), None)"
      using short p by (intro parse_domain_datagram P) simp_all
    then have pr: "parseUDPHeader None (Some (P @ host d @ PutUint16 (port d) @ b)) True
       = (Returns (P ! 1, Some d, None), None)"
      using d by simp
    have wr: "socksWrap T d b
        = Returns (P @ host d @ PutUint16 (port d) @ b @ replicate (249 - length (host d)) 0,
                   7 + length (host d))"
      using socksWrap_domain [OF ne short, of T b] by (simp add: P_def)
    show ?thesis
      using pr P(1) short unfolding wr dom(2)
      by (simp add: length_PutUint16)
  qed
qed

text \<open>
  A destination with neither an address nor a name (what the parser returns for a domain
  header with the length byte 0) goes out through the IPv6 branch, with a header of 22
  bytes.
\<close>

lemma parse_empty_domain:
  "parseUDPHeader None (Some [0, 0, 0, 3, 0, 0, 53]) True
     = (Returns (0, Some \<lparr>ip = None, host = [], port = 53, size_hdr = 7\<rparr>, None), None)"
  by (simp add: parseUDPHeader_def parseFrom_def addrSize_def extractAddr_def socks_consts
      slice_def Uint16_def)

lemma wrap_empty_domain:
  "\<exists>xbuf. socksWrap exampleTemplates \<lparr>ip = None, host = [], port = 53, size_hdr = 7\<rparr> b
            = Returns (xbuf, 22) \<and> xbuf ! 3 = socksAddrIPv6"
  by (simp add: socksWrap_def Let_def IPv4len_def exampleTemplates_def length_copy_at
      length_copy_range length_copy_bytes copy_at_def copy_range_def copy_bytes_def slice_def
      socks_consts nth_append)

text \<open>
  Claim C5 fails on the code for long domain names. The parser accepts a header whose
  domain name has 250 bytes and returns it as the destination, with size 257. For a pool
  member with that destination and a learned peer, \<^verbatim>\<open>write\<close> panics for every payload:
  \<^verbatim>\<open>xbuf\<close> has \<open>len(b) + 256\<close> bytes, and the header alone has 257, so the slice
  \<^verbatim>\<open>xbuf[:ln+len(b)]\<close> (or, for a short payload, the store of the port) reaches behind
  its end. No header is produced that could be parsed back. For IPv4 and IPv6
  destinations and for names of at most 249 bytes the round trip holds (lemma
  \<open>write_round_trip\<close>).
\<close>

theorem write_panics_on_long_domain:
  "parseUDPHeader None (Some ([0, 0, 0, 3, 250] @ replicate 250 97 @ [0, 53])) True
     = (Returns (0, Some \<lparr>ip = None, host = replicate 250 97, port = 53, size_hdr = 257\<rparr>, None),
        None)
   \<and> write_udp T (newMember s (Some p)
                    \<lparr>ip = None, host = replicate 250 97, port = 53, size_hdr = 257\<rparr>) b
     = (Panics IndexOutOfRange,
        newMember s (Some p) \<lparr>ip = None, host = replicate 250 97, port = 53, size_hdr = 257\<rparr>)"
  by (simp only: parse_long_domain write_long_domain)

section \<open>Properties of the pool\<close>

lemma closed_after_failed_dial: "closed (snd (DialUpstream False m))"
  by (simp add: DialUpstream_def Close_def Let_def split: prod.splits)

text \<open>The loop invariant: the members below \<open>i\<close> exist and are closed.\<close>

lemma dialMembers_all_failed:
  assumes "length srcs = maxConns" "i \<le> maxConns"
    "\<forall>j<i. \<exists>c. srcs ! j = Some c \<and> closed c"
    "\<forall>j. i \<le> j \<and> j < maxConns \<longrightarrow> \<not> dial j"
  shows "length (dialMembers dial relay src d seed maxConns i srcs) = maxConns
       \<and> (\<forall>j<maxConns. \<exists>c. dialMembers dial relay src d seed maxConns i srcs ! j = Some c
                              \<and> closed c)"
  using assms
proof (induction dial relay src d seed maxConns i srcs rule: dialMembers.induct)
  case (1 dial relay src d seed maxConns i srcs)
  show ?case
  proof (cases "i < maxConns")
    case False
    with 1 show ?thesis by (simp add: dialMembers.simps)
  next
    case True
    define m0 where
      "m0 = (if i = 0 then (newMember relay src d)\<lparr>initBuf := Some seed\<rparr> else newMember relay src d)"
    define m' where "m' = snd (DialUpstream (dial i) m0)"
    have nd: "\<not> dial i" using True 1 by simp
    have cl: "closed m'" using nd closed_after_failed_dial [of m0] by (simp add: m'_def)
    have step: "dialMembers dial relay src d seed maxConns i srcs
        = dialMembers dial (UDPConn m') src d seed maxConns (i + 1) (srcs[i := Some m'])"
      using True by (subst dialMembers.simps) (simp add: Let_def m'_def m0_def)
    have inv: "\<forall>j<i + 1. \<exists>c. srcs[i := Some m'] ! j = Some c \<and> closed c"
      using 1(2,4) True cl by (auto simp: nth_list_update less_Suc_eq)
    have "length (dialMembers dial (UDPConn m') src d seed maxConns (i + 1) (srcs[i := Some m']))
          = maxConns
       \<and> (\<forall>j<maxConns. \<exists>c. dialMembers dial (UDPConn m') src d seed maxConns (i + 1)
                                (srcs[i := Some m']) ! j = Some c \<and> closed c)"
      using "1.IH" [OF True refl, of m0 m'] 1(2,5) True inv
      by (simp add: m0_def m'_def)
    then show ?thesis by (simp add: step)
  qed
qed

lemma countClosed_all:
  "\<forall>j<length xs. \<exists>c. xs ! j = Some c \<and> closed c \<Longrightarrow> countClosed xs k = Returns (k + length xs)"
proof (induction xs arbitrary: k)
  case Nil
  then show ?case by simp
next
  case (Cons x xs)
  from Cons.prems have "\<exists>c. x = Some c \<and> closed c" by auto
  then obtain c where x: "x = Some c" "closed c" by blast
  from Cons.prems have "\<forall>j<length xs. \<exists>c. xs ! j = Some c \<and> closed c" by auto
  from Cons.IH [OF this] x show ?case by simp
qed

text \<open>
  Claim C8. With a fan-out \<open>N \<ge> 1\<close> and every one of the \<open>N\<close> dials failing, the loop of
  lines 346-364 leaves \<open>N\<close> members, each of them closed, and the supervision loop then
  returns at its first poll, whatever the tunnel tasks would do during a sleep; so
  \<^verbatim>\<open>handleUDPtoTCP\<close> returns (or panics on a malformed first datagram) and never polls
  forever, whatever the socket delivers. The closing of a member by a failed dial is the
  behaviour of \<^verbatim>\<open>DialUpstream\<close> that the specification states.
\<close>

theorem pool_terminates_when_all_dials_fail:
  assumes "1 \<le> N" "\<forall>i<N. \<not> dial i"
  shows "(\<exists>srcs. dialMembers dial relay src d seed N 0 (replicate N None) = srcs
           \<and> length srcs = N
           \<and> (\<forall>j<N. \<exists>c. srcs ! j = Some c \<and> closed c)
           \<and> supervise tick N srcs = Some (Returns srcs))
       \<and> (\<exists>r. handleUDPtoTCP dial tick N relay = Some r)"
proof -
  have pool: "length (dialMembers dial s a e sd N 0 (replicate N None)) = N
      \<and> (\<forall>j<N. \<exists>c. dialMembers dial s a e sd N 0 (replicate N None) ! j = Some c \<and> closed c)
      \<and> supervise tick N (dialMembers dial s a e sd N 0 (replicate N None))
          = Some (Returns (dialMembers dial s a e sd N 0 (replicate N None)))"
    for s a e sd
  proof -
    let ?srcs = "dialMembers dial s a e sd N 0 (replicate N None)"
    have a: "length ?srcs = N \<and> (\<forall>j<N. \<exists>c. ?srcs ! j = Some c \<and> closed c)"
      using assms by (intro dialMembers_all_failed) auto
    then have "countClosed ?srcs 0 = Returns N"
      using countClosed_all [of ?srcs 0] by simp
    then have "supervise tick N ?srcs = Some (Returns ?srcs)"
      by (subst supervise.simps) simp
    with a show ?thesis by simp
  qed
  have "\<exists>r. handleUDPtoTCP dial tick N relay = Some r"
    by (simp add: handleUDPtoTCP_def pool split: prod.splits option.splits outcome.splits)
  with pool [of relay src d seed] show ?thesis by simp
qed

text \<open>
  The theorem at a fan-out of 2, for the destination 1.2.3.4:53 and the seed "PING", and
  for a socket whose first datagram is the IPv4 header for 1.2.3.4:53 followed by "PING".
\<close>

theorem pool_terminates_when_all_dials_fail_witness:
  "(\<exists>srcs. dialMembers (\<lambda>i. False) healthy (Some 9) dst1234 [80, 73, 78, 71] 2 0
             (replicate 2 None) = srcs
         \<and> length srcs = 2
         \<and> (\<forall>j<2. \<exists>c. srcs ! j = Some c \<and> closed c)
         \<and> supervise id 2 srcs = Some (Returns srcs))
   \<and> (\<exists>r. handleUDPtoTCP (\<lambda>i. False) id 2
              (healthy\<lparr>inbox := [Inr (9, [0, 0, 0, 1, 1, 2, 3, 4, 0, 53, 80, 73, 78, 71])]\<rparr>)
            = Some r)"
  using pool_terminates_when_all_dials_fail
      [where N = 2 and dial = "\<lambda>i. False" and src = "Some 9" and d = dst1234
         and seed = "[80, 73, 78, 71]" and tick = id and relay = healthy]
    pool_terminates_when_all_dials_fail
      [where N = 2 and dial = "\<lambda>i. False" and src = "Some 9" and d = dst1234
         and seed = "[80, 73, 78, 71]" and tick = id
         and relay = "healthy\<lparr>inbox := [Inr (9, [0, 0, 0, 1, 1, 2, 3, 4, 0, 53, 80, 73, 78, 71])]\<rparr>"]
  by simp

end
